theory Spec2Isabelle
  imports Main "HOL-Library.AList" "HOL-Library.Multiset"
begin

section \<open>The PlantUML plugin: data model\<close>

text \<open>
  The plugin \<^verbatim>\<open>markbind-plugin-plantuml.js\<close> works on the document that
  \<^verbatim>\<open>cheerio.load(content, { xmlMode: true })\<close> returns. A node of that document is a
  text node (\<^verbatim>\<open>type === 'text'\<close>, with \<^verbatim>\<open>data\<close>), a comment, a processing
  directive, a CDATA section (which has children) or an element. Only an element has
  \<^verbatim>\<open>name\<close>, \<^verbatim>\<open>attribs\<close> and \<^verbatim>\<open>children\<close>; its \<^verbatim>\<open>children\<close> is always
  an array, so the guard \<^verbatim>\<open>tag.children !== undefined\<close> of the source holds for every
  element and is carried by the type here.

  \<^verbatim>\<open>attribs\<close> is a JavaScript object from attribute names to strings. It is an
  association list in insertion order: \<^verbatim>\<open>attribs.k\<close> is \<open>map_of attribs k\<close>
  (\<open>None\<close> is \<^verbatim>\<open>undefined\<close>), and the assignment \<^verbatim>\<open>attribs.k = v\<close> is
  \<open>AList.update k v attribs\<close>: an existing key keeps its place, a new key goes last.
\<close>

type_synonym attribs = "(string \<times> string) list"

datatype node =
    Text string
  | Comment string
  | Directive string string
  | CData "node list"
  | Tag element
and element =
    Element (name: string) (attribs: attribs) (children: "node list")

text \<open>\<^verbatim>\<open>child.type === 'text'\<close>\<close>

fun is_text :: "node \<Rightarrow> bool" where
  "is_text (Text d) = True"
| "is_text n = False"

text \<open>The parser context handed to the plugin: \<^verbatim>\<open>config.sourcePath\<close> and
  \<^verbatim>\<open>config.resultPath\<close>.\<close>

record config =
  sourcePath :: string
  resultPath :: string

text \<open>An exception of the Node.js runtime, with its message.\<close>

datatype exn = Exn string

text \<open>What \<^verbatim>\<open>logger.debug\<close> and \<^verbatim>\<open>logger.error\<close> are called with.\<close>

datatype log_entry = Debug exn | Error string

text \<open>
  Everything the plugin takes from outside its own file. The functions of Node's
  \<^verbatim>\<open>path\<close>, \<^verbatim>\<open>fs\<close> and of \<^verbatim>\<open>crypto-js\<close>, \<^verbatim>\<open>cheerio\<close>, the helper
  \<^verbatim>\<open>fsUtil.removeExtension\<close> and the constants of \<^verbatim>\<open>constants.js\<close> are not
  part of the plugin's source; they are parameters of the model, so every theorem
  holds for whatever they compute. The file system is a value of an arbitrary type
  \<open>'fs\<close>. \<^verbatim>\<open>fs.readFileSync\<close> and \<^verbatim>\<open>fs.mkdirSync\<close> may throw: they return
  \<open>Inl\<close> of the exception then.
\<close>

record 'fs env =
  path_resolve :: "string \<Rightarrow> string \<Rightarrow> string"
  path_dirname :: "string \<Rightarrow> string"
  path_basename :: "string \<Rightarrow> string"
  path_join :: "string \<Rightarrow> string \<Rightarrow> string"
  MD5 :: "string \<Rightarrow> string"
  removeExtension :: "string \<Rightarrow> string"
  JAR_PATH :: string
  ERR_PROCESSING :: string
  ERR_READING :: string
  existsSync :: "'fs \<Rightarrow> string \<Rightarrow> bool"
  mkdirSync :: "'fs \<Rightarrow> string \<Rightarrow> exn + 'fs"
  readFileSync :: "'fs \<Rightarrow> string \<Rightarrow> exn + string"
  cheerio_load :: "string \<Rightarrow> node list"
  cheerio_html :: "node list \<Rightarrow> string"

text \<open>
  The state the plugin reads and writes: the module-level set
  \<^verbatim>\<open>processedDiagrams\<close>, the file system, the child processes started by
  \<^verbatim>\<open>exec\<close> (the command line and the text written to the child's standard input),
  and the log. What a child process does after it was started (it writes the image,
  its events reach the log later) happens after the synchronous call has returned
  and is not part of this state.
\<close>

record 'fs plugin_state =
  processedDiagrams :: "string set"
  fs :: 'fs
  spawned :: "(string \<times> string) list"
  logged :: "log_entry list"

section \<open>The functions of the plugin\<close>

text \<open>\<^verbatim>\<open>fetchContentInTag\<close>: the \<^verbatim>\<open>forEach\<close> over the children overwrites
  \<^verbatim>\<open>content\<close> at every text child.\<close>

definition fetchContentInTag :: "element \<Rightarrow> string" where
  "fetchContentInTag tag =
     foldl (\<lambda>content child. case child of Text d \<Rightarrow> d | _ \<Rightarrow> content) [] (children tag)"

text \<open>\<^verbatim>\<open>getFileName\<close>\<close>

definition getFileName :: "'fs env \<Rightarrow> attribs \<Rightarrow> string \<Rightarrow> string" where
  "getFileName E tagAttribs content =
     (case map_of tagAttribs ''name'' of
        Some nm \<Rightarrow> nm @ ''.png''
      | None \<Rightarrow>
          (case map_of tagAttribs ''src'' of
             Some src \<Rightarrow> removeExtension E src @ ''.png''
           | None \<Rightarrow> MD5 E content @ ''.png''))"

text \<open>The path of the \<^verbatim>\<open>.puml\<close> file of a tag with \<^verbatim>\<open>src\<close>:
  \<^verbatim>\<open>path.resolve(path.dirname(cwf || sourcePath), src)\<close>, where \<^verbatim>\<open>cwf || sourcePath\<close>
  is \<^verbatim>\<open>sourcePath\<close> when \<^verbatim>\<open>cwf\<close> is undefined or the empty string.\<close>

definition rawDiagramPath :: "'fs env \<Rightarrow> config \<Rightarrow> string option \<Rightarrow> string \<Rightarrow> string" where
  "rawDiagramPath E config cwf src =
     (let cwf' = (case cwf of None \<Rightarrow> sourcePath config
                  | Some c \<Rightarrow> if c = [] then sourcePath config else c)
      in path_resolve E (path_dirname E cwf') src)"

text \<open>\<^verbatim>\<open>getContent\<close>. The \<^verbatim>\<open>catch\<close> logs the exception and the path and
  returns the empty string.\<close>

definition getContent ::
  "'fs env \<Rightarrow> element \<Rightarrow> string option \<Rightarrow> config \<Rightarrow> 'fs plugin_state \<Rightarrow> string \<times> 'fs plugin_state"
where
  "getContent E element cwf config s =
     (case map_of (attribs element) ''src'' of
        Some src \<Rightarrow>
          (case readFileSync E (fs s) (rawDiagramPath E config cwf src) of
             Inr text \<Rightarrow> (text, s)
           | Inl err \<Rightarrow>
               ([], s\<lparr>logged := logged s @
                  [Debug err, Error (ERR_READING E @ '' '' @ rawDiagramPath E config cwf src)]\<rparr>))
      | None \<Rightarrow> (fetchContentInTag element, s))"

text \<open>The two paths \<^verbatim>\<open>generateDiagram\<close> computes, and its command line.\<close>

definition outputDir :: "'fs env \<Rightarrow> config \<Rightarrow> string \<Rightarrow> string" where
  "outputDir E config fileName =
     path_join E (path_dirname E (resultPath config)) (path_dirname E fileName)"

definition outputFilePath :: "'fs env \<Rightarrow> config \<Rightarrow> string \<Rightarrow> string" where
  "outputFilePath E config fileName =
     path_join E (outputDir E config fileName) (path_basename E fileName)"

definition cmd :: "'fs env \<Rightarrow> string \<Rightarrow> string" where
  "cmd E path =
     ''java -jar '' @ [CHR 0x22] @ JAR_PATH E @ [CHR 0x22] @ '' -pipe > '' @
     [CHR 0x22] @ path @ [CHR 0x22]"

text \<open>
  \<^verbatim>\<open>generateDiagram\<close>. A path already in \<^verbatim>\<open>processedDiagrams\<close> returns at once.
  Otherwise the path is recorded, the output directory is created when it does not
  exist (an exception of \<^verbatim>\<open>mkdirSync\<close> is not caught: it ends the call), the
  renderer is started with \<^verbatim>\<open>content\<close> on its standard input, and \<^verbatim>\<open>fileName\<close>
  is returned.
\<close>

definition generateDiagram ::
  "'fs env \<Rightarrow> string \<Rightarrow> string \<Rightarrow> config \<Rightarrow> 'fs plugin_state \<Rightarrow> exn + (string \<times> 'fs plugin_state)"
where
  "generateDiagram E fileName content config s =
     (let dir = outputDir E config fileName;
          path = outputFilePath E config fileName
      in if path \<in> processedDiagrams s then Inr (fileName, s)
         else
           (let s1 = s\<lparr>processedDiagrams := insert path (processedDiagrams s)\<rparr>
            in case (if existsSync E (fs s1) dir then Inr (fs s1)
                     else mkdirSync E (fs s1) dir) of
                 Inl err \<Rightarrow> Inl err
               | Inr fs' \<Rightarrow>
                   Inr (fileName,
                        s1\<lparr>fs := fs', spawned := spawned s1 @ [(cmd E path, content)]\<rparr>)))"

text \<open>
  The callback of \<^verbatim>\<open>$('puml').each\<close>: it renames the tag, reads its content,
  sets \<^verbatim>\<open>src\<close> to what \<^verbatim>\<open>generateDiagram\<close> returns and empties the children.
  The result is the tag after the three assignments.
\<close>

definition puml_callback ::
  "'fs env \<Rightarrow> config \<Rightarrow> element \<Rightarrow> 'fs plugin_state \<Rightarrow> exn + (element \<times> 'fs plugin_state)"
where
  "puml_callback E config tag s =
     (let cwf = map_of (attribs tag) ''cwf'';
          (pumlContent, s1) = getContent E tag cwf config s;
          fileName = getFileName E (attribs tag) pumlContent
      in case generateDiagram E fileName pumlContent config s1 of
           Inl err \<Rightarrow> Inl err
         | Inr (r, s2) \<Rightarrow> Inr (Element ''pic'' (AList.update ''src'' r (attribs tag)) [], s2))"

text \<open>
  \<^verbatim>\<open>$('puml')\<close>: every element named \<^verbatim>\<open>puml\<close>, in document order. The selection
  is made before the loop runs, so a \<^verbatim>\<open>puml\<close> element inside another one is in
  it as well.
\<close>

fun select_node :: "node \<Rightarrow> element list"
and select_element :: "element \<Rightarrow> element list"
and select_nodes :: "node list \<Rightarrow> element list" where
  "select_node (Tag e) = select_element e"
| "select_node (CData cs) = select_nodes cs"
| "select_node (Text d) = []"
| "select_node (Comment d) = []"
| "select_node (Directive n d) = []"
| "select_element (Element n a cs) =
     (if n = ''puml'' then [Element n a cs] else []) @ select_nodes cs"
| "select_nodes [] = []"
| "select_nodes (x # xs) = select_node x @ select_nodes xs"

text \<open>\<^verbatim>\<open>.each\<close>: the callback on every selected tag in turn; an exception ends the
  loop. The result lists the tags as the callback left them.\<close>

fun each_puml ::
  "'fs env \<Rightarrow> config \<Rightarrow> element list \<Rightarrow> 'fs plugin_state \<Rightarrow> exn + (element list \<times> 'fs plugin_state)"
where
  "each_puml E config [] s = Inr ([], s)"
| "each_puml E config (tag # tags) s =
     (case puml_callback E config tag s of
        Inl err \<Rightarrow> Inl err
      | Inr (tag', s1) \<Rightarrow>
          (case each_puml E config tags s1 of
             Inl err \<Rightarrow> Inl err
           | Inr (tags', s2) \<Rightarrow> Inr (tag' # tags', s2)))"

text \<open>
  The callback assigns to the fields of the tag object in place. In the document
  these assignments show as follows: walking the document in the order of the
  selection, each \<^verbatim>\<open>puml\<close> element met is the next tag of the loop and stands in
  the document as the loop left it. The callback has emptied its children, so the
  \<^verbatim>\<open>puml\<close> elements that were below it are no longer in the document; their
  entries of the loop's result are skipped.
\<close>

fun write_back_node :: "node \<Rightarrow> element list \<Rightarrow> node \<times> element list"
and write_back_element :: "element \<Rightarrow> element list \<Rightarrow> element \<times> element list"
and write_back_nodes :: "node list \<Rightarrow> element list \<Rightarrow> node list \<times> element list" where
  "write_back_node (Tag e) ms = (let (e', ms') = write_back_element e ms in (Tag e', ms'))"
| "write_back_node (CData cs) ms = (let (cs', ms') = write_back_nodes cs ms in (CData cs', ms'))"
| "write_back_node (Text d) ms = (Text d, ms)"
| "write_back_node (Comment d) ms = (Comment d, ms)"
| "write_back_node (Directive n d) ms = (Directive n d, ms)"
| "write_back_element (Element n a cs) ms =
     (if n = ''puml''
      then (case ms of
              [] \<Rightarrow> (Element n a cs, [])
            | m # ms' \<Rightarrow> (m, drop (length (select_nodes cs)) ms'))
      else (let (cs', ms') = write_back_nodes cs ms in (Element n a cs', ms')))"
| "write_back_nodes [] ms = ([], ms)"
| "write_back_nodes (x # xs) ms =
     (let (x', ms1) = write_back_node x ms;
          (xs', ms2) = write_back_nodes xs ms1
      in (x' # xs', ms2))"

text \<open>
  \<^verbatim>\<open>preRender\<close> (its parameters \<^verbatim>\<open>pluginContext\<close> and \<^verbatim>\<open>frontmatter\<close> are not
  used by the source): clear the set, load the document, run the loop over the
  selection, return \<^verbatim>\<open>$.html()\<close>.
\<close>

definition preRender ::
  "'fs env \<Rightarrow> string \<Rightarrow> config \<Rightarrow> 'fs plugin_state \<Rightarrow> exn + (string \<times> 'fs plugin_state)"
where
  "preRender E content config s =
     (let s0 = s\<lparr>processedDiagrams := {}\<rparr>;
          doc = cheerio_load E content
      in case each_puml E config (select_nodes doc) s0 of
           Inl err \<Rightarrow> Inl err
         | Inr (tags', s1) \<Rightarrow> Inr (cheerio_html E (fst (write_back_nodes doc tags')), s1))"

section \<open>What the claims say, as definitions\<close>

text \<open>
  The file name of a tag's diagram: \<^verbatim>\<open>getFileName\<close> on the tag's attributes and
  its content. The content of a tag without \<^verbatim>\<open>src\<close> is the text inside it; for
  a tag with \<^verbatim>\<open>src\<close> the content comes from a file, and the name does not depend
  on it (lemma \<open>getFileName_content_irrelevant\<close> below).
\<close>

definition diagram_file :: "'fs env \<Rightarrow> element \<Rightarrow> string" where
  "diagram_file E tag = getFileName E (attribs tag) (fetchContentInTag tag)"

text \<open>A converted tag: named \<^verbatim>\<open>pic\<close>, \<^verbatim>\<open>src\<close> set to the diagram's file name,
  no children.\<close>

definition converted :: "'fs env \<Rightarrow> element \<Rightarrow> element" where
  "converted E tag =
     Element ''pic'' (AList.update ''src'' (diagram_file E tag) (attribs tag)) []"

text \<open>The document with every \<^verbatim>\<open>puml\<close> element converted and nothing else
  changed.\<close>

fun converted_node :: "'fs env \<Rightarrow> node \<Rightarrow> node"
and converted_element :: "'fs env \<Rightarrow> element \<Rightarrow> element"
and converted_nodes :: "'fs env \<Rightarrow> node list \<Rightarrow> node list" where
  "converted_node E (Tag e) = Tag (converted_element E e)"
| "converted_node E (CData cs) = CData (converted_nodes E cs)"
| "converted_node E (Text d) = Text d"
| "converted_node E (Comment d) = Comment d"
| "converted_node E (Directive n d) = Directive n d"
| "converted_element E (Element n a cs) =
     (if n = ''puml'' then converted E (Element n a cs)
      else Element n a (converted_nodes E cs))"
| "converted_nodes E [] = []"
| "converted_nodes E (x # xs) = converted_node E x # converted_nodes E xs"

section \<open>A small environment to run the plugin in\<close>

text \<open>
  An instance of the parameters, for evaluating the model on concrete inputs: paths
  are split at the last slash, the digest is a stand-in (the reversed text), the file
  system is the list of existing directories and the list of readable files, and
  \<open>demo_load\<close> knows two documents.
\<close>

definition demo_dirname :: "string \<Rightarrow> string" where
  "demo_dirname p =
     (if CHR ''/'' \<in> set p then rev (tl (dropWhile (\<lambda>c. c \<noteq> CHR ''/'') (rev p))) else ''.'')"

definition demo_basename :: "string \<Rightarrow> string" where
  "demo_basename p = rev (takeWhile (\<lambda>c. c \<noteq> CHR ''/'') (rev p))"

definition demo_join :: "string \<Rightarrow> string \<Rightarrow> string" where
  "demo_join a b = (if b = ''.'' then a else a @ ''/'' @ b)"

definition demo_removeExtension :: "string \<Rightarrow> string" where
  "demo_removeExtension p =
     (if CHR ''.'' \<in> set p then rev (tl (dropWhile (\<lambda>c. c \<noteq> CHR ''.'') (rev p))) else p)"

record demo_fs =
  dirs :: "string list"
  files :: "(string \<times> string) list"

definition demo_mkdir :: "demo_fs \<Rightarrow> string \<Rightarrow> exn + demo_fs" where
  "demo_mkdir f p =
     (if p \<in> fst ` set (files f) then Inl (Exn ''EEXIST'') else Inr (f\<lparr>dirs := p # dirs f\<rparr>))"

definition demo_read :: "demo_fs \<Rightarrow> string \<Rightarrow> exn + string" where
  "demo_read f p = (case map_of (files f) p of None \<Rightarrow> Inl (Exn ''ENOENT'') | Some t \<Rightarrow> Inr t)"

definition demo_doc :: "node list" where
  "demo_doc =
     [Tag (Element ''p'' []
        [Text ''see'',
         Tag (Element ''puml'' [(''width'', ''300'')] [Text ''a->b'']),
         Tag (Element ''puml'' [] [Comment ''c'', Text ''a->b''])]),
      Tag (Element ''puml'' [(''src'', ''d/x.puml'')] [])]"

definition demo_load :: "string \<Rightarrow> node list" where
  "demo_load content = (if content = ''demo'' then demo_doc else [Text content])"

fun demo_html_node :: "node \<Rightarrow> string"
and demo_html_element :: "element \<Rightarrow> string"
and demo_html :: "node list \<Rightarrow> string" where
  "demo_html_node (Tag e) = demo_html_element e"
| "demo_html_node (CData cs) = demo_html cs"
| "demo_html_node (Text d) = d"
| "demo_html_node (Comment d) = []"
| "demo_html_node (Directive n d) = []"
| "demo_html_element (Element n a cs) =
     ''<'' @ n @ concat (map (\<lambda>(k, v). '' '' @ k @ ''='' @ v) a) @ ''>'' @ demo_html cs @
     ''</'' @ n @ ''>''"
| "demo_html [] = []"
| "demo_html (x # xs) = demo_html_node x @ demo_html xs"

definition demo_env :: "demo_fs env" where
  "demo_env =
     \<lparr>path_resolve = demo_join, path_dirname = demo_dirname, path_basename = demo_basename,
      path_join = demo_join, MD5 = rev, removeExtension = demo_removeExtension,
      JAR_PATH = ''/opt/plantuml.jar'', ERR_PROCESSING = ''Error processing'',
      ERR_READING = ''Error reading'',
      existsSync = (\<lambda>f p. p \<in> set (dirs f)), mkdirSync = demo_mkdir,
      readFileSync = demo_read, cheerio_load = demo_load, cheerio_html = demo_html\<rparr>"

definition demo_config :: config where
  "demo_config = \<lparr>sourcePath = ''site/index.md'', resultPath = ''out/index.html''\<rparr>"

definition demo_state :: "demo_fs plugin_state" where
  "demo_state =
     \<lparr>processedDiagrams = {''out/old.png''}, fs = \<lparr>dirs = [''out''], files = []\<rparr>,
      spawned = [], logged = []\<rparr>"

definition demo_mid :: "demo_fs plugin_state" where
  "demo_mid =
     demo_state\<lparr>processedDiagrams := {''out/b>-a.png'', ''out/old.png''},
                spawned := [(cmd demo_env ''out/b>-a.png'', ''a->b'')]\<rparr>"

definition demo_after :: "demo_fs plugin_state" where
  "demo_after =
     \<lparr>processedDiagrams = {''out/d/x.png'', ''out/b>-a.png''},
      fs = \<lparr>dirs = [''out/d'', ''out''], files = []\<rparr>,
      spawned = [(cmd demo_env ''out/b>-a.png'', ''a->b''), (cmd demo_env ''out/d/x.png'', [])],
      logged = [Debug (Exn ''ENOENT''), Error ''Error reading site/d/x.puml'']\<rparr>"

section \<open>The list core of the specification\<close>

text \<open>
  The specification describes a list tokenizer, a tree builder and a renderer. Their
  code is not among the source files (\<^verbatim>\<open>part_000\<close> only documents the list syntax),
  so every definition of this section is modelled from the specification's sections 3
  and 4.
\<close>

subsection \<open>Tokens and nodes\<close>

text \<open>Modelled from the spec: the kinds of a token of the missing list tokenizer
  (section 3), an ordered item with the ordinal written in the source.\<close>

datatype kind = Unordered | Ordered nat | Task bool | Radio bool | Continuation | Blank

text \<open>Modelled from the spec: \<open>ListToken\<close>, one parsed source line of the missing
  list tokenizer, with its fields \<open>depth\<close>, \<open>kind\<close> and \<open>text\<close>.\<close>

record ListToken =
  tdepth :: nat
  tkind :: kind
  ttext :: string

text \<open>Modelled from the spec: what the missing list tokenizer makes of a line, a token
  or a non-list line (which is passed through and is no token).\<close>

datatype line_class = Tok ListToken | NonList

text \<open>Modelled from the spec: the kinds a node of the missing tree builder can have,
  those of a token without \<open>Continuation\<close> and \<open>Blank\<close>.\<close>

datatype item_kind = IUnordered | IOrdered nat | ITask bool | IRadio bool

text \<open>Modelled from the spec: \<open>ListNode\<close>, a node of the tree of the missing tree
  builder, with its fields \<open>kind\<close>, \<open>content\<close> and \<open>children\<close>.\<close>

datatype ListNode =
  ListNode (node_kind: item_kind) (node_content: string) (node_children: "ListNode list")

subsection \<open>The tokenizer\<close>

text \<open>Modelled from the spec: the whitespace of the missing list tokenizer, a space or
  a tab.\<close>

definition is_ws :: "char \<Rightarrow> bool" where
  "is_ws c = (c = CHR '' '' \<or> c = CHR 0x09)"

text \<open>Modelled from the spec: the digits of an ordered marker.\<close>

definition is_digit :: "char \<Rightarrow> bool" where
  "is_digit c = (c \<in> set ''0123456789'')"

text \<open>Modelled from the spec: the width of the leading whitespace in the missing list
  tokenizer, a tab counting as a fixed width (four columns).\<close>

fun indent_width :: "string \<Rightarrow> nat" where
  "indent_width [] = 0"
| "indent_width (c # cs) =
     (if c = CHR '' '' then 1 + indent_width cs
      else if c = CHR 0x09 then 4 + indent_width cs
      else 0)"

text \<open>Modelled from the spec: the forced-break marker that ends a line. The
  documented syntax writes it \<^verbatim>\<open><br>\<close>.\<close>

definition ends_with_break :: "string \<Rightarrow> bool" where
  "ends_with_break l = (rev (take 4 (rev l)) = ''<br>'')"

text \<open>Modelled from the spec: a line without the forced-break marker at its end.\<close>

definition strip_break :: "string \<Rightarrow> string" where
  "strip_break l = (if ends_with_break l then take (length l - 4) l else l)"

text \<open>Modelled from the spec: the literal content of an item, what follows the marker
  without the whitespace before it and without a forced-break marker at its end.\<close>

definition item_text :: "string \<Rightarrow> string" where
  "item_text rest = strip_break (dropWhile is_ws rest)"

text \<open>Modelled from the spec: a line matching a marker starts with it.\<close>

definition starts_with :: "string \<Rightarrow> string \<Rightarrow> bool" where
  "starts_with p l = (take (length p) l = p)"

text \<open>Modelled from the spec: a marker is followed by whitespace. The line break that
  ends the line is whitespace too, so a marker may end the line (the specification's
  own example has items that are just \<^verbatim>\<open>1.\<close>).\<close>

definition marker_ends :: "string \<Rightarrow> bool" where
  "marker_ends rest = (case rest of [] \<Rightarrow> True | c # cs \<Rightarrow> is_ws c)"

text \<open>Modelled from the spec: \<^verbatim>\<open>- [ ]\<close> and \<^verbatim>\<open>- [x]\<close>, the \<^verbatim>\<open>x\<close> in either
  case.\<close>

definition match_task :: "string \<Rightarrow> bool option" where
  "match_task body =
     (if \<not> marker_ends (drop 5 body) then None
      else if starts_with ''- [ ]'' body then Some False
      else if starts_with ''- [x]'' body \<or> starts_with ''- [X]'' body then Some True
      else None)"

text \<open>Modelled from the spec: \<^verbatim>\<open>- ( )\<close> and \<^verbatim>\<open>- (x)\<close>.\<close>

definition match_radio :: "string \<Rightarrow> bool option" where
  "match_radio body =
     (if \<not> marker_ends (drop 5 body) then None
      else if starts_with ''- ( )'' body then Some False
      else if starts_with ''- (x)'' body then Some True
      else None)"

text \<open>Modelled from the spec: \<^verbatim>\<open>-\<close>, \<^verbatim>\<open>*\<close> or \<^verbatim>\<open>+\<close> followed by whitespace.\<close>

definition match_unordered :: "string \<Rightarrow> bool" where
  "match_unordered body =
     (case body of [] \<Rightarrow> False | c # rest \<Rightarrow> c \<in> set ''-*+'' \<and> marker_ends rest)"

text \<open>Modelled from the spec: the parsed digits of an ordered marker, in base ten.\<close>

fun digit_value :: "char \<Rightarrow> nat" where
  "digit_value c = of_char c - 48"

text \<open>Modelled from the spec: the ordinal that the digits of a marker denote.\<close>

definition parse_digits :: "string \<Rightarrow> nat" where
  "parse_digits ds = foldl (\<lambda>n c. 10 * n + digit_value c) 0 ds"

text \<open>Modelled from the spec: digits, a dot, whitespace; the ordinal is the parsed
  digits.\<close>

definition match_ordered :: "string \<Rightarrow> nat option" where
  "match_ordered body =
     (let ds = takeWhile is_digit body; rest = dropWhile is_digit body
      in case rest of
           [] \<Rightarrow> None
         | c # rest' \<Rightarrow>
             if ds \<noteq> [] \<and> c = CHR ''.'' \<and> marker_ends rest' then Some (parse_digits ds)
             else None)"

text \<open>
  Modelled from the spec: what the missing list tokenizer remembers between the lines
  of one list: the indentation of the first item of the list, the indentation unit
  once a nested item has shown it, the indentation of the previous list item, whether
  the previous line ended with the forced-break marker, and whether it was blank.
\<close>

record tokenizer =
  list_base :: "nat option"
  indent_unit :: "nat option"
  prev_item :: "nat option"
  prev_break :: bool
  prev_blank :: bool

text \<open>Modelled from the spec: the missing list tokenizer outside any list.\<close>

definition tokenizer_init :: tokenizer where
  "tokenizer_init =
     \<lparr>list_base = None, indent_unit = None, prev_item = None, prev_break = False,
      prev_blank = False\<rparr>"

text \<open>Modelled from the spec: the depth of a line is its indentation beyond that of
  the first item of the list, divided by the indentation unit; before a nested item
  has shown the unit every line is at depth 0.\<close>

definition depth_of :: "nat \<Rightarrow> nat option \<Rightarrow> nat \<Rightarrow> nat" where
  "depth_of base u w = (case u of None \<Rightarrow> 0 | Some n \<Rightarrow> (w - base) div n)"

text \<open>
  Modelled from the spec: the token of an item line of kind \<open>k\<close> whose text follows
  the marker, and what the missing list tokenizer remembers after it. The first item
  of a list sets the base indentation; the first nested item, the first one indented
  further than the base, sets the unit to its indentation beyond the base. Items of
  one indentation so get one depth.
\<close>

definition item_line :: "tokenizer \<Rightarrow> string \<Rightarrow> kind \<Rightarrow> string \<Rightarrow> line_class \<times> tokenizer" where
  "item_line st l k rest =
     (let w = indent_width l;
          base = (case list_base st of None \<Rightarrow> w | Some b \<Rightarrow> b);
          u = (case indent_unit st of
                 None \<Rightarrow> if base < w then Some (w - base) else None
               | Some n \<Rightarrow> Some n)
      in (Tok \<lparr>tdepth = depth_of base u w, tkind = k, ttext = item_text rest\<rparr>,
          \<lparr>list_base = Some base, indent_unit = u, prev_item = Some w,
           prev_break = ends_with_break l, prev_blank = False\<rparr>))"

text \<open>
  Modelled from the spec: the detection order of section 4.1 in the missing list
  tokenizer, first match wins: blank, task, radio, unordered, ordered, continuation
  (the previous line ended with the forced-break marker, or the line is indented
  further than the previous list item), and anything else is a non-list line, which
  resets the list context. Two blank lines in a row close all lists (section 4.2), so
  the second one resets the list context as well.
\<close>

definition classify :: "tokenizer \<Rightarrow> string \<Rightarrow> line_class \<times> tokenizer" where
  "classify st l =
     (let body = dropWhile is_ws l in
      if body = [] then
        (Tok \<lparr>tdepth = 0, tkind = Blank, ttext = []\<rparr>,
         if prev_blank st then tokenizer_init
         else st\<lparr>prev_break := False, prev_blank := True\<rparr>)
      else case match_task body of
        Some b \<Rightarrow> item_line st l (Task b) (drop 5 body)
      | None \<Rightarrow>
      (case match_radio body of
        Some b \<Rightarrow> item_line st l (Radio b) (drop 5 body)
      | None \<Rightarrow>
      if match_unordered body then item_line st l Unordered (drop 1 body)
      else case match_ordered body of
        Some n \<Rightarrow> item_line st l (Ordered n) (drop 1 (dropWhile is_digit body))
      | None \<Rightarrow>
      (case prev_item st of
        Some w \<Rightarrow>
          if prev_break st \<or> w < indent_width l
          then (Tok \<lparr>tdepth = depth_of (case list_base st of None \<Rightarrow> indent_width l
                                           | Some b \<Rightarrow> b)
                                 (indent_unit st) (indent_width l),
                     tkind = Continuation, ttext = strip_break body\<rparr>,
                st\<lparr>prev_break := ends_with_break l, prev_blank := False\<rparr>)
          else (NonList, tokenizer_init)
      | None \<Rightarrow> (NonList, tokenizer_init))))"

text \<open>Modelled from the spec: the missing list tokenizer over a sequence of lines, in
  source order.\<close>

fun tokenize_from :: "tokenizer \<Rightarrow> string list \<Rightarrow> line_class list" where
  "tokenize_from st [] = []"
| "tokenize_from st (l # ls) = (let (c, st') = classify st l in c # tokenize_from st' ls)"

text \<open>Modelled from the spec: the contract of the missing list tokenizer, from raw
  lines to their classes.\<close>

definition tokenize :: "string list \<Rightarrow> line_class list" where
  "tokenize ls = tokenize_from tokenizer_init ls"

subsection \<open>The tree builder\<close>

text \<open>
  Modelled from the spec: the stack of open items with their depths (the innermost
  first), the finished root items of the current list, whether the last token was a
  blank, and the forests already closed.
\<close>

record builder =
  stack :: "(nat \<times> ListNode) list"
  roots :: "ListNode list"
  blank_seen :: bool
  finished :: "ListNode list list"

text \<open>Modelled from the spec: the missing tree builder before the first token.\<close>

definition builder_init :: builder where
  "builder_init = \<lparr>stack = [], roots = [], blank_seen = False, finished = []\<rparr>"

text \<open>Modelled from the spec: a node of the missing tree builder with one more child,
  after those it has.\<close>

definition add_child :: "ListNode \<Rightarrow> ListNode \<Rightarrow> ListNode" where
  "add_child p n = ListNode (node_kind p) (node_content p) (node_children p @ [n])"

text \<open>Modelled from the spec: popping the stack while the depth on its top satisfies
  \<open>P\<close>. A popped item is the last child of the item below it, or the last root.\<close>

fun close_frames ::
  "(nat \<Rightarrow> bool) \<Rightarrow> (nat \<times> ListNode) list \<Rightarrow> ListNode list \<Rightarrow> (nat \<times> ListNode) list \<times> ListNode list"
where
  "close_frames P [] rs = ([], rs)"
| "close_frames P [(d, n)] rs = (if P d then ([], rs @ [n]) else ([(d, n)], rs))"
| "close_frames P ((d, n) # (d', p) # st) rs =
     (if P d then close_frames P ((d', add_child p n) # st) rs
      else ((d, n) # (d', p) # st, rs))"

text \<open>
  Modelled from the spec: the open item of the missing tree builder that takes a
  continuation line of depth \<open>d\<close>, the innermost one that is not deeper than the
  line; the deeper ones are closed. When every open item is deeper than the line, the
  outermost one takes it (rounding down to the nearest enclosing level).
\<close>

fun close_deeper :: "nat \<Rightarrow> (nat \<times> ListNode) list \<Rightarrow> (nat \<times> ListNode) list" where
  "close_deeper d ((d1, n) # (d2, p) # st) =
     (if d < d1 then close_deeper d ((d2, add_child p n) # st) else (d1, n) # (d2, p) # st)"
| "close_deeper d st = st"

text \<open>Modelled from the spec: closing all open lists of the missing tree builder; the
  roots become a finished forest.\<close>

definition flush :: "builder \<Rightarrow> builder" where
  "flush b =
     (let rs = snd (close_frames (\<lambda>d. True) (stack b) (roots b))
      in \<lparr>stack = [], roots = [], blank_seen = False,
          finished = finished b @ (if rs = [] then [] else [rs])\<rparr>)"

text \<open>Modelled from the spec: the kind of the node made of a token; a continuation
  and a blank make no node.\<close>

fun item_kind_of :: "kind \<Rightarrow> item_kind option" where
  "item_kind_of Unordered = Some IUnordered"
| "item_kind_of (Ordered n) = Some (IOrdered n)"
| "item_kind_of (Task b) = Some (ITask b)"
| "item_kind_of (Radio b) = Some (IRadio b)"
| "item_kind_of Continuation = None"
| "item_kind_of Blank = None"

text \<open>
  Modelled from the spec: the step of the missing tree builder on one line (section
  4.2). A blank closes nothing by itself, two in a row close all lists. A
  continuation is appended, after a forced line break, to the content of the
  innermost open item that is not deeper than the line; with no open item there is
  nothing it continues. An item pops the stack until its top is less deep than the
  item and is pushed there. A non-list line closes all lists.
\<close>

definition step :: "builder \<Rightarrow> line_class \<Rightarrow> builder" where
  "step b c =
     (case c of
        NonList \<Rightarrow> flush b
      | Tok t \<Rightarrow>
          (case item_kind_of (tkind t) of
             Some k \<Rightarrow>
               (let (st, rs) = close_frames (\<lambda>d. tdepth t \<le> d) (stack b) (roots b)
                in b\<lparr>stack := (tdepth t, ListNode k (ttext t) []) # st, roots := rs,
                     blank_seen := False\<rparr>)
           | None \<Rightarrow>
               if tkind t = Blank then (if blank_seen b then flush b else b\<lparr>blank_seen := True\<rparr>)
               else
                 (case close_deeper (tdepth t) (stack b) of
                    [] \<Rightarrow> b\<lparr>blank_seen := False\<rparr>
                  | (d, n) # st' \<Rightarrow>
                      b\<lparr>stack :=
                          (d, ListNode (node_kind n) (node_content n @ ''<br>'' @ ttext t)
                                (node_children n)) # st',
                        blank_seen := False\<rparr>)))"

text \<open>Modelled from the spec: the contract of the missing tree builder, from the
  classes of the lines to the forests of the lists, the last list closed at the end
  of the input.\<close>

definition build :: "line_class list \<Rightarrow> ListNode list list" where
  "build cs = finished (flush (foldl step builder_init cs))"

subsection \<open>The renderer\<close>

text \<open>Modelled from the spec: the number of an ordered item as the missing renderer
  writes it, in decimal digits.\<close>

fun decimal :: "nat \<Rightarrow> string" where
  "decimal n =
     (if n < 10 then [''0123456789'' ! n]
      else decimal (n div 10) @ [''0123456789'' ! (n mod 10)])"

text \<open>Modelled from the spec: the nodes of kind \<open>Ordered\<close>.\<close>

fun is_ordered :: "ListNode \<Rightarrow> bool" where
  "is_ordered (ListNode (IOrdered n) c cs) = True"
| "is_ordered (ListNode k c cs) = False"

text \<open>Modelled from the spec: the native list markup of the missing renderer; a list
  of siblings is an ordered list when all of them are ordered items, an unordered
  list otherwise.\<close>

definition list_tag :: "ListNode list \<Rightarrow> string" where
  "list_tag ns = (if list_all is_ordered ns then ''ol'' else ''ul'')"

text \<open>Modelled from the spec: how an item opens. An ordered item carries its number,
  a task item a checkbox, a radio item a radio control.\<close>

fun item_open :: "nat \<Rightarrow> item_kind \<Rightarrow> string" where
  "item_open i IUnordered = ''<li>''"
| "item_open i (IOrdered n) = ''<li value='' @ decimal i @ ''>''"
| "item_open i (ITask b) =
     ''<li><input type=checkbox disabled'' @ (if b then '' checked'' else []) @ ''>''"
| "item_open i (IRadio b) =
     ''<li><input type=radio disabled'' @ (if b then '' checked'' else []) @ ''>''"

text \<open>
  Modelled from the spec: the missing renderer on an item and on a list of siblings
  (section 4.3). The ordered items among siblings are numbered
  1, 2, 3 in document order; the ordinal of the source is not used. The children
  are rendered inside the body of their parent.
\<close>

fun render_node :: "nat \<Rightarrow> ListNode \<Rightarrow> string"
and render_nodes :: "nat \<Rightarrow> ListNode list \<Rightarrow> string" where
  "render_node i (ListNode k c cs) =
     item_open i k @ c @
     (if cs = [] then []
      else ''<'' @ list_tag cs @ ''>'' @ render_nodes 1 cs @ ''</'' @ list_tag cs @ ''>'') @
     ''</li>''"
| "render_nodes i [] = []"
| "render_nodes i (n # ns) =
     render_node i n @ render_nodes (if is_ordered n then Suc i else i) ns"

text \<open>Modelled from the spec: the contract of the missing renderer, from a forest to
  its markup.\<close>

definition render_forest :: "ListNode list \<Rightarrow> string" where
  "render_forest ns =
     (if ns = [] then []
      else ''<'' @ list_tag ns @ ''>'' @ render_nodes 1 ns @ ''</'' @ list_tag ns @ ''>'')"

text \<open>Modelled from the spec: the data flow of section 2, raw lines to tokens to
  forests to markup.\<close>

definition render_lines :: "string list \<Rightarrow> string" where
  "render_lines ls = concat (map render_forest (build (tokenize ls)))"

subsection \<open>Names for the statements about the list core\<close>

text \<open>Modelled from the spec: an ordered item token at depth \<open>d\<close> with its ordinal
  and text, and the node the missing tree builder makes of it.\<close>

definition ordered_node :: "nat \<times> string \<Rightarrow> ListNode" where
  "ordered_node oc = ListNode (IOrdered (fst oc)) (snd oc) []"

text \<open>Modelled from the spec: the ordered item token of the missing list tokenizer
  at depth \<open>d\<close> with ordinal and text \<open>oc\<close>.\<close>

definition ordered_tok :: "nat \<Rightarrow> nat \<times> string \<Rightarrow> line_class" where
  "ordered_tok d oc = Tok \<lparr>tdepth = d, tkind = Ordered (fst oc), ttext = snd oc\<rparr>"

text \<open>Modelled from the spec: the trees and forests of the missing tree builder in
  which every node, at every level, is an ordered item.\<close>

fun ordered_tree :: "ListNode \<Rightarrow> bool"
and ordered_forest :: "ListNode list \<Rightarrow> bool" where
  "ordered_tree (ListNode k c cs) =
     ((case k of IOrdered n \<Rightarrow> True | _ \<Rightarrow> False) \<and> ordered_forest cs)"
| "ordered_forest [] = True"
| "ordered_forest (n # ns) = (ordered_tree n \<and> ordered_forest ns)"

text \<open>Modelled from the spec: the contents of the nodes of a tree and of a forest in
  document order, a node before its children.\<close>

fun texts_node :: "ListNode \<Rightarrow> string list"
and texts_nodes :: "ListNode list \<Rightarrow> string list" where
  "texts_node (ListNode k c cs) = c # texts_nodes cs"
| "texts_nodes [] = []"
| "texts_nodes (n # ns) = texts_node n @ texts_nodes ns"

text \<open>Modelled from the spec: a forest with other source ordinals, each ordinal \<open>n\<close>
  of an ordered item replaced by \<open>f n\<close>.\<close>

fun relabel_kind :: "(nat \<Rightarrow> nat) \<Rightarrow> item_kind \<Rightarrow> item_kind" where
  "relabel_kind f (IOrdered n) = IOrdered (f n)"
| "relabel_kind f k = k"

text \<open>Modelled from the spec: the trees of the missing tree builder with the
  ordinals replaced.\<close>

fun relabel_node :: "(nat \<Rightarrow> nat) \<Rightarrow> ListNode \<Rightarrow> ListNode"
and relabel_nodes :: "(nat \<Rightarrow> nat) \<Rightarrow> ListNode list \<Rightarrow> ListNode list" where
  "relabel_node f (ListNode k c cs) = ListNode (relabel_kind f k) c (relabel_nodes f cs)"
| "relabel_nodes f [] = []"
| "relabel_nodes f (n # ns) = relabel_node f n # relabel_nodes f ns"

text \<open>Modelled from the spec: the contents of the lists still open in the missing
  tree builder, in document order: the finished roots, then the open items from the
  outermost to the innermost.\<close>

definition open_texts :: "builder \<Rightarrow> string list" where
  "open_texts b = texts_nodes (roots b) @ concat (map (texts_node \<circ> snd) (rev (stack b)))"

text \<open>Modelled from the spec: the contents of the nodes of a tree and of a forest
  in document order, each with the level it stands at in the tree, the roots at
  level \<open>d\<close>. A forest is determined by this list.\<close>

fun levels_node :: "nat \<Rightarrow> ListNode \<Rightarrow> (nat \<times> string) list"
and levels_nodes :: "nat \<Rightarrow> ListNode list \<Rightarrow> (nat \<times> string) list" where
  "levels_node d (ListNode k c cs) = (d, c) # levels_nodes (Suc d) cs"
| "levels_nodes d [] = []"
| "levels_nodes d (n # ns) = levels_node d n @ levels_nodes d ns"

text \<open>Modelled from the spec: a sequence of depths that skips no level: each depth
  is at most one more than the depth before it, the first at most \<open>n\<close>.\<close>

fun nested_from :: "nat \<Rightarrow> nat list \<Rightarrow> bool" where
  "nested_from n [] = True"
| "nested_from n (d # ds) = (d \<le> n \<and> nested_from (Suc d) ds)"

text \<open>Modelled from the spec: the contents with their levels of the lists still
  open in the missing tree builder, in document order.\<close>

definition open_levels :: "builder \<Rightarrow> (nat \<times> string) list" where
  "open_levels b =
     levels_nodes 0 (roots b) @ concat (map (\<lambda>(e, n). levels_node e n) (rev (stack b)))"










section \<open>Evaluating the small environment\<close>

lemma demo_env_sel:
  "path_resolve demo_env = demo_join" "path_dirname demo_env = demo_dirname"
  "path_basename demo_env = demo_basename" "path_join demo_env = demo_join"
  "MD5 demo_env = rev" "removeExtension demo_env = demo_removeExtension"
  "JAR_PATH demo_env = ''/opt/plantuml.jar''" "ERR_PROCESSING demo_env = ''Error processing''"
  "ERR_READING demo_env = ''Error reading''"
  "existsSync demo_env = (\<lambda>f p. p \<in> set (dirs f))" "mkdirSync demo_env = demo_mkdir"
  "readFileSync demo_env = demo_read" "cheerio_load demo_env = demo_load"
  "cheerio_html demo_env = demo_html"
  by (simp_all add: demo_env_def)

section \<open>The content of a tag\<close>

lemma fetch_foldl_no_text:
  "\<forall>c\<in>set cs. \<not> is_text c \<Longrightarrow>
   foldl (\<lambda>content child. case child of Text d \<Rightarrow> d | _ \<Rightarrow> content) c0 cs = c0"
  by (induction cs arbitrary: c0) (auto split: node.splits)

text \<open>
  Claim C9. \<^verbatim>\<open>fetchContentInTag\<close> returns the data of the last text child of the
  tag: when the children are \<open>pre @ Text d # post\<close> and no child in \<open>post\<close> is a
  text node, the result is \<open>d\<close>, whatever text nodes \<open>pre\<close> holds (a later text
  child overwrites an earlier one, nothing is concatenated). When no child is a text
  node, and so when there are no children, the result is the empty string.
\<close>

theorem fetchContentInTag_last_text:
  "(children tag = pre @ Text d # post \<and> (\<forall>c\<in>set post. \<not> is_text c)
      \<longrightarrow> fetchContentInTag tag = d) \<and>
   ((\<forall>c\<in>set (children tag). \<not> is_text c) \<longrightarrow> fetchContentInTag tag = [])"
  by (simp add: fetchContentInTag_def fetch_foldl_no_text)

theorem fetchContentInTag_last_text_witness:
  "fetchContentInTag (Element ''puml'' []
     [Text ''a'', Comment ''x'', Text ''b'', Tag (Element ''i'' [] [Text ''c''])]) = ''b'' \<and>
   fetchContentInTag (Element ''puml'' [] [Comment ''x'']) = [] \<and>
   fetchContentInTag (Element ''puml'' [] []) = []"
  using
    fetchContentInTag_last_text [of
      "Element ''puml'' [] [Text ''a'', Comment ''x'', Text ''b'', Tag (Element ''i'' [] [Text ''c''])]"
      "[Text ''a'', Comment ''x'']" "''b''" "[Tag (Element ''i'' [] [Text ''c''])]"]
    fetchContentInTag_last_text [of "Element ''puml'' [] [Comment ''x'']" "[]" "[]" "[]"]
    fetchContentInTag_last_text [of "Element ''puml'' [] []" "[]" "[]" "[]"]
  by simp

section \<open>File names\<close>

lemma getFileName_content_irrelevant:
  "map_of a ''name'' \<noteq> None \<or> map_of a ''src'' \<noteq> None \<Longrightarrow>
   getFileName E a content = getFileName E a content'"
  by (auto simp: getFileName_def split: option.splits)

text \<open>
  Claim C10. \<^verbatim>\<open>getFileName\<close> resolves the file name by strict precedence of the
  attributes: with a \<^verbatim>\<open>name\<close> attribute the result is the name followed by
  \<^verbatim>\<open>.png\<close>, whether or not there is a \<^verbatim>\<open>src\<close>; without \<^verbatim>\<open>name\<close> and with
  \<^verbatim>\<open>src\<close> it is \<^verbatim>\<open>removeExtension(src)\<close> followed by \<^verbatim>\<open>.png\<close>; only without
  both is it the digest of the content followed by \<^verbatim>\<open>.png\<close>. With a \<^verbatim>\<open>name\<close> or
  a \<^verbatim>\<open>src\<close> attribute the result is the same for every content.
\<close>

theorem getFileName_precedence:
  "(\<forall>nm. map_of a ''name'' = Some nm \<longrightarrow> getFileName E a content = nm @ ''.png'') \<and>
   (\<forall>src. map_of a ''name'' = None \<and> map_of a ''src'' = Some src \<longrightarrow>
      getFileName E a content = removeExtension E src @ ''.png'') \<and>
   (map_of a ''name'' = None \<and> map_of a ''src'' = None \<longrightarrow>
      getFileName E a content = MD5 E content @ ''.png'') \<and>
   (map_of a ''name'' \<noteq> None \<or> map_of a ''src'' \<noteq> None \<longrightarrow>
      (\<forall>content'. getFileName E a content' = getFileName E a content))"
  by (auto simp: getFileName_def split: option.splits)

theorem getFileName_precedence_witness:
  "getFileName demo_env [(''src'', ''d/x.puml''), (''name'', ''n'')] ''a->b'' = ''n.png'' \<and>
   getFileName demo_env [(''src'', ''d/x.puml'')] ''a->b'' = ''d/x.png'' \<and>
   getFileName demo_env [(''width'', ''3'')] ''a->b'' = ''b>-a.png'' \<and>
   getFileName demo_env [(''src'', ''d/x.puml'')] ''c->d'' =
     getFileName demo_env [(''src'', ''d/x.puml'')] ''a->b''"
  using
    getFileName_precedence [of "[(''src'', ''d/x.puml''), (''name'', ''n'')]" demo_env "''a->b''"]
    getFileName_precedence [of "[(''src'', ''d/x.puml'')]" demo_env "''a->b''"]
    getFileName_precedence [of "[(''width'', ''3'')]" demo_env "''a->b''"]
  by (simp add: demo_env_sel demo_removeExtension_def getFileName_def)

section \<open>One call, one tag, one loop\<close>

lemma cmd_inject: "cmd E p = cmd E q \<longleftrightarrow> p = q"
  by (simp add: cmd_def)

lemma generateDiagram_seen:
  "outputFilePath E cfg f \<in> processedDiagrams s \<Longrightarrow> generateDiagram E f c cfg s = Inr (f, s)"
  by (simp add: generateDiagram_def)

lemma generateDiagram_new:
  assumes "outputFilePath E cfg f \<notin> processedDiagrams s"
    and "generateDiagram E f c cfg s = Inr (r, s')"
  shows "r = f"
    and "processedDiagrams s' = insert (outputFilePath E cfg f) (processedDiagrams s)"
    and "spawned s' = spawned s @ [(cmd E (outputFilePath E cfg f), c)]"
    and "logged s' = logged s"
  using assms by (auto simp: generateDiagram_def Let_def split: if_splits sum.splits)

lemma getContent_keeps:
  assumes "getContent E t cwf cfg s = (c, s')"
  shows "processedDiagrams s' = processedDiagrams s" and "fs s' = fs s"
    and "spawned s' = spawned s"
    and "getFileName E (attribs t) c = diagram_file E t"
proof -
  show "processedDiagrams s' = processedDiagrams s" "fs s' = fs s" "spawned s' = spawned s"
    using assms by (auto simp: getContent_def Let_def split: option.splits sum.splits)
  show "getFileName E (attribs t) c = diagram_file E t"
  proof (cases "map_of (attribs t) ''src''")
    case None
    with assms show ?thesis by (simp add: getContent_def diagram_file_def)
  next
    case (Some src)
    then show ?thesis
      unfolding diagram_file_def by (auto simp: getFileName_def split: option.splits)
  qed
qed

lemma puml_callback_Inr:
  assumes "puml_callback E cfg t s = Inr (t', s')"
  shows "t' = converted E t"
    and "processedDiagrams s' = insert (outputFilePath E cfg (diagram_file E t)) (processedDiagrams s)"
    and "outputFilePath E cfg (diagram_file E t) \<in> processedDiagrams s \<Longrightarrow> spawned s' = spawned s"
    and "outputFilePath E cfg (diagram_file E t) \<notin> processedDiagrams s \<Longrightarrow>
           \<exists>c. spawned s' = spawned s @ [(cmd E (outputFilePath E cfg (diagram_file E t)), c)]"
proof -
  obtain c s1 where gc: "getContent E t (map_of (attribs t) ''cwf'') cfg s = (c, s1)"
    by (cases "getContent E t (map_of (attribs t) ''cwf'') cfg s")
  note k = getContent_keeps [OF gc]
  from assms gc k(4) obtain r where
    gd: "generateDiagram E (diagram_file E t) c cfg s1 = Inr (r, s')"
    and t': "t' = Element ''pic'' (AList.update ''src'' r (attribs t)) []"
    by (auto simp: puml_callback_def Let_def split: sum.splits)
  let ?p = "outputFilePath E cfg (diagram_file E t)"
  show "t' = converted E t"
  proof (cases "?p \<in> processedDiagrams s1")
    case True
    with gd t' show ?thesis by (simp add: generateDiagram_seen converted_def)
  next
    case False
    from generateDiagram_new(1) [OF False gd] t' show ?thesis by (simp add: converted_def)
  qed
  show "processedDiagrams s' = insert ?p (processedDiagrams s)"
  proof (cases "?p \<in> processedDiagrams s1")
    case True
    with gd k(1) show ?thesis by (auto simp: generateDiagram_seen)
  next
    case False
    from generateDiagram_new(2) [OF False gd] k(1) show ?thesis by simp
  qed
  show "spawned s' = spawned s" if "?p \<in> processedDiagrams s"
    using that gd k(1,3) by (simp add: generateDiagram_seen)
  show "\<exists>c. spawned s' = spawned s @ [(cmd E ?p, c)]" if "?p \<notin> processedDiagrams s"
  proof -
    from that k(1) have "?p \<notin> processedDiagrams s1" by simp
    from generateDiagram_new(3) [OF this gd] k(3) show ?thesis by auto
  qed
qed

lemma each_puml_Inr:
  assumes "each_puml E cfg ts s = Inr (ms, s')"
  shows "ms = map (converted E) ts \<and>
         processedDiagrams s' =
           processedDiagrams s \<union> (\<lambda>t. outputFilePath E cfg (diagram_file E t)) ` set ts \<and>
         (\<exists>new. spawned s' = spawned s @ new \<and> distinct (map fst new) \<and>
                set (map fst new) = cmd E ` (processedDiagrams s' - processedDiagrams s))"
  using assms
proof (induction ts arbitrary: s ms s')
  case Nil
  then show ?case by simp
next
  case (Cons t ts)
  let ?p = "outputFilePath E cfg (diagram_file E t)"
  from Cons.prems obtain t' s1 ms1 where
    cb: "puml_callback E cfg t s = Inr (t', s1)"
    and rest: "each_puml E cfg ts s1 = Inr (ms1, s')"
    and ms: "ms = t' # ms1"
    by (auto split: sum.splits)
  note c = puml_callback_Inr [OF cb]
  from Cons.IH [OF rest] obtain new where
    ih1: "ms1 = map (converted E) ts"
    and ih2: "processedDiagrams s' =
           processedDiagrams s1 \<union> (\<lambda>t. outputFilePath E cfg (diagram_file E t)) ` set ts"
    and ih3: "spawned s' = spawned s1 @ new" "distinct (map fst new)"
      "set (map fst new) = cmd E ` (processedDiagrams s' - processedDiagrams s1)"
    by blast
  have A: "ms = map (converted E) (t # ts)" using ms ih1 c(1) by simp
  have B: "processedDiagrams s' =
           processedDiagrams s \<union> (\<lambda>t. outputFilePath E cfg (diagram_file E t)) ` set (t # ts)"
    using ih2 c(2) by auto
  have C: "\<exists>new. spawned s' = spawned s @ new \<and> distinct (map fst new) \<and>
                set (map fst new) = cmd E ` (processedDiagrams s' - processedDiagrams s)"
  proof (cases "?p \<in> processedDiagrams s")
    case True
    then have "processedDiagrams s1 = processedDiagrams s" using c(2) by auto
    with c(3) [OF True] ih3 show ?thesis by auto
  next
    case False
    from c(4) [OF False] obtain x where sp: "spawned s1 = spawned s @ [(cmd E ?p, x)]" by blast
    have notin: "cmd E ?p \<notin> set (map fst new)"
      using ih3(3) c(2) by (auto simp: cmd_inject)
    have "processedDiagrams s' - processedDiagrams s =
          insert ?p (processedDiagrams s' - processedDiagrams s1)"
      using c(2) ih2 False by auto
    then have "set (map fst ((cmd E ?p, x) # new)) = cmd E ` (processedDiagrams s' - processedDiagrams s)"
      using ih3(3) by simp
    moreover have "distinct (map fst ((cmd E ?p, x) # new))" using notin ih3(2) by simp
    moreover have "spawned s' = spawned s @ ((cmd E ?p, x) # new)" using sp ih3(1) by simp
    ultimately show ?thesis by blast
  qed
  from A B C show ?case by blast
qed

lemma write_back_converted:
  "write_back_node x (map (converted E) (select_node x) @ rest) = (converted_node E x, rest)"
  "write_back_element e (map (converted E) (select_element e) @ rest) = (converted_element E e, rest)"
  "write_back_nodes xs (map (converted E) (select_nodes xs) @ rest) = (converted_nodes E xs, rest)"
proof (induction x and e and xs arbitrary: rest and rest and rest
    rule: select_node_select_element_select_nodes.induct)
qed (auto simp: converted_def)


section \<open>What the outcome depends on\<close>

lemma getContent_core:
  assumes "fs s = fs t"
  shows "fst (getContent E tag cwf cfg s) = fst (getContent E tag cwf cfg t)"
  using assms by (auto simp: getContent_def Let_def split: option.splits sum.splits)

lemma getContent_state:
  "processedDiagrams (snd (getContent E tag cwf cfg s)) = processedDiagrams s"
  "fs (snd (getContent E tag cwf cfg s)) = fs s"
  by (auto simp: getContent_def Let_def split: option.splits sum.splits)

lemma generateDiagram_core:
  assumes "processedDiagrams s = processedDiagrams t" "fs s = fs t"
  shows "rel_sum (=) (\<lambda>(r, s') (r', t'). r = r' \<and> processedDiagrams s' = processedDiagrams t' \<and> fs s' = fs t')
           (generateDiagram E f c cfg s) (generateDiagram E f c cfg t)"
  using assms by (auto simp: generateDiagram_def Let_def split: sum.splits)

lemma puml_callback_core:
  assumes "processedDiagrams s = processedDiagrams t" "fs s = fs t"
  shows "rel_sum (=) (\<lambda>(r, s') (r', t'). r = r' \<and> processedDiagrams s' = processedDiagrams t' \<and> fs s' = fs t')
           (puml_callback E cfg tag s) (puml_callback E cfg tag t)"
proof -
  let ?cwf = "map_of (attribs tag) ''cwf''"
  obtain c s1 where gs: "getContent E tag ?cwf cfg s = (c, s1)" by (cases "getContent E tag ?cwf cfg s")
  obtain c' t1 where gt: "getContent E tag ?cwf cfg t = (c', t1)" by (cases "getContent E tag ?cwf cfg t")
  have cc: "c = c'" using getContent_core [OF assms(2), of E tag ?cwf cfg] gs gt by simp
  have st: "processedDiagrams s1 = processedDiagrams t1" "fs s1 = fs t1"
    using getContent_state [of E tag ?cwf cfg s] getContent_state [of E tag ?cwf cfg t] gs gt assms
    by simp_all
  from generateDiagram_core [OF st, of E "getFileName E (attribs tag) c" c cfg]
  show ?thesis
    by (auto simp: puml_callback_def gs gt cc rel_sum.simps split: sum.splits)
qed

lemma each_puml_core:
  assumes "processedDiagrams s = processedDiagrams t" "fs s = fs t"
  shows "rel_sum (=) (\<lambda>(r, s') (r', t'). r = r' \<and> processedDiagrams s' = processedDiagrams t' \<and> fs s' = fs t')
           (each_puml E cfg tags s) (each_puml E cfg tags t)"
  using assms
proof (induction tags arbitrary: s t)
  case Nil
  then show ?case by simp
next
  case (Cons tag tags)
  note cb = puml_callback_core [OF Cons.prems, of E cfg tag]
  show ?case
  proof (cases "puml_callback E cfg tag s")
    case (Inl e)
    with cb show ?thesis by (auto simp: rel_sum.simps)
  next
    case (Inr a)
    obtain r s1 where a: "a = (r, s1)" by (cases a)
    from cb Inr a obtain t1 where
      tb: "puml_callback E cfg tag t = Inr (r, t1)"
      and rel: "processedDiagrams s1 = processedDiagrams t1" "fs s1 = fs t1"
      by (auto simp: rel_sum.simps)
    from Cons.IH [OF rel] show ?thesis
      by (auto simp: Inr a tb rel_sum.simps split: sum.splits)
  qed
qed

section \<open>Runs in the small environment\<close>

lemmas demo_defs =
  demo_env_sel demo_load_def demo_doc_def demo_config_def demo_state_def
  puml_callback_def getContent_def rawDiagramPath_def getFileName_def generateDiagram_def
  fetchContentInTag_def outputDir_def outputFilePath_def demo_dirname_def demo_basename_def
  demo_join_def demo_removeExtension_def demo_mkdir_def demo_read_def

lemma demo_preRender:
  "preRender demo_env ''demo'' demo_config demo_state =
   Inr (''<p>see<pic width=300 src=b>-a.png></pic><pic src=b>-a.png></pic></p><pic src=d/x.png></pic>'',
        demo_after)"
  by (simp add: preRender_def Let_def demo_defs demo_after_def)

lemma demo_generateDiagram:
  "generateDiagram demo_env ''b>-a.png'' ''a->b'' demo_config demo_state = Inr (''b>-a.png'', demo_mid)"
  by (simp add: demo_defs demo_mid_def Let_def)

lemma demo_each_puml:
  "each_puml demo_env demo_config (select_nodes demo_doc) demo_state =
   Inr (map (converted demo_env) (select_nodes demo_doc),
        demo_after\<lparr>processedDiagrams := {''out/d/x.png'', ''out/b>-a.png'', ''out/old.png''}\<rparr>)"
  by (simp add: demo_defs demo_after_def converted_def diagram_file_def Let_def)

section \<open>The claims about the plugin\<close>

text \<open>
  Claim C1. A \<^verbatim>\<open>puml\<close> tag with neither a \<^verbatim>\<open>name\<close> nor a \<^verbatim>\<open>src\<close> attribute
  gets the digest of its content followed by \<^verbatim>\<open>.png\<close> as file name, and its
  content is the text inside the tag. So two such tags with the same content have the
  same output file path, and once the callback has run on the first, the callback on
  the second, in any later state of the pass (the set only grows during a pass),
  converts the tag and leaves the state as it is: no directory is created and no
  renderer is started a second time.
\<close>

theorem content_hash_dedup:
  fixes E :: "'fs env"
  assumes "map_of (attribs t1) ''name'' = None" "map_of (attribs t1) ''src'' = None"
    and "map_of (attribs t2) ''name'' = None" "map_of (attribs t2) ''src'' = None"
    and "fetchContentInTag t1 = fetchContentInTag t2"
  shows "(\<forall>content. getFileName E (attribs t1) content = MD5 E content @ ''.png'') \<and>
         (\<forall>cwf s. getContent E t1 cwf cfg s = (fetchContentInTag t1, s)) \<and>
         outputFilePath E cfg (diagram_file E t1) = outputFilePath E cfg (diagram_file E t2) \<and>
         (\<forall>s t1' s1. puml_callback E cfg t1 s = Inr (t1', s1) \<longrightarrow>
            map_of (attribs t1') ''src'' = Some (MD5 E (fetchContentInTag t1) @ ''.png'') \<and>
            (\<forall>s2. processedDiagrams s1 \<subseteq> processedDiagrams s2 \<longrightarrow>
               puml_callback E cfg t2 s2 = Inr (converted E t2, s2)))"
proof (intro conjI allI impI)
  show "getFileName E (attribs t1) content = MD5 E content @ ''.png''" for content
    using assms(1,2) by (simp add: getFileName_def)
  show "getContent E t1 cwf cfg s = (fetchContentInTag t1, s)" for cwf s
    using assms(2) by (simp add: getContent_def)
  have df: "diagram_file E t1 = MD5 E (fetchContentInTag t1) @ ''.png''"
    "diagram_file E t2 = diagram_file E t1"
    using assms by (simp_all add: diagram_file_def getFileName_def)
  show "outputFilePath E cfg (diagram_file E t1) = outputFilePath E cfg (diagram_file E t2)"
    by (simp add: df)
  fix s s1 :: "'fs plugin_state" and t1'
  assume cb: "puml_callback E cfg t1 s = Inr (t1', s1)"
  note c = puml_callback_Inr [OF cb]
  show "map_of (attribs t1') ''src'' = Some (MD5 E (fetchContentInTag t1) @ ''.png'')"
    by (simp add: c(1) converted_def df(1) update_conv')
  fix s2 :: "'fs plugin_state"
  assume sub: "processedDiagrams s1 \<subseteq> processedDiagrams s2"
  with c(2) have seen: "outputFilePath E cfg (diagram_file E t2) \<in> processedDiagrams s2"
    by (auto simp: df(2))
  have "getContent E t2 (map_of (attribs t2) ''cwf'') cfg s2 = (fetchContentInTag t2, s2)"
    using assms(4) by (simp add: getContent_def)
  then show "puml_callback E cfg t2 s2 = Inr (converted E t2, s2)"
    using generateDiagram_seen [OF seen]
    by (simp add: puml_callback_def converted_def diagram_file_def)
qed

theorem content_hash_dedup_witness:
  "getFileName demo_env (attribs (Element ''puml'' [(''width'', ''300'')] [Text ''a->b''])) ''a->b'' =
     ''b>-a.png'' \<and>
   outputFilePath demo_env demo_config
       (diagram_file demo_env (Element ''puml'' [(''width'', ''300'')] [Text ''a->b''])) =
     outputFilePath demo_env demo_config
       (diagram_file demo_env (Element ''puml'' [] [Comment ''c'', Text ''a->b''])) \<and>
   puml_callback demo_env demo_config (Element ''puml'' [(''width'', ''300'')] [Text ''a->b''])
       demo_state =
     Inr (Element ''pic'' [(''width'', ''300''), (''src'', ''b>-a.png'')] [], demo_mid) \<and>
   puml_callback demo_env demo_config (Element ''puml'' [] [Comment ''c'', Text ''a->b'']) demo_mid =
     Inr (converted demo_env (Element ''puml'' [] [Comment ''c'', Text ''a->b'']), demo_mid)"
proof -
  let ?t1 = "Element ''puml'' [(''width'', ''300'')] [Text ''a->b'']"
  let ?t2 = "Element ''puml'' [] [Comment ''c'', Text ''a->b'']"
  have h: "map_of (attribs ?t1) ''name'' = None" "map_of (attribs ?t1) ''src'' = None"
    "map_of (attribs ?t2) ''name'' = None" "map_of (attribs ?t2) ''src'' = None"
    "fetchContentInTag ?t1 = fetchContentInTag ?t2"
    by (simp_all add: fetchContentInTag_def)
  have cb: "puml_callback demo_env demo_config ?t1 demo_state =
     Inr (Element ''pic'' [(''width'', ''300''), (''src'', ''b>-a.png'')] [], demo_mid)"
    by (simp add: demo_defs demo_mid_def Let_def)
  note d = content_hash_dedup [OF h, of demo_env demo_config]
  from d have a: "getFileName demo_env (attribs ?t1) ''a->b'' = ''b>-a.png''"
    by (simp add: demo_env_sel)
  from d have b: "outputFilePath demo_env demo_config (diagram_file demo_env ?t1) =
     outputFilePath demo_env demo_config (diagram_file demo_env ?t2)"
    by blast
  from d cb have c: "puml_callback demo_env demo_config ?t2 demo_mid =
     Inr (converted demo_env ?t2, demo_mid)"
    by blast
  from a b c cb show ?thesis by blast
qed

text \<open>
  Claim C2. \<^verbatim>\<open>generateDiagram\<close> is idempotent between two clears of the set: when
  the output file path is already in \<^verbatim>\<open>processedDiagrams\<close> the call returns
  \<^verbatim>\<open>fileName\<close> and the state is unchanged (no directory creation, no renderer); a
  call that returns has returned \<^verbatim>\<open>fileName\<close>, and a second call with the same
  \<^verbatim>\<open>fileName\<close> and \<^verbatim>\<open>config\<close> after it returns \<^verbatim>\<open>fileName\<close> and changes
  nothing; and over any run of calls without a clear (the loop over any list of
  tags, from any state) the renderer commands started are pairwise distinct, one for
  each output path that the run added to the set.
\<close>

theorem generateDiagram_idempotent:
  "(outputFilePath E cfg f \<in> processedDiagrams s \<longrightarrow> generateDiagram E f c cfg s = Inr (f, s)) \<and>
   (\<forall>r s1. generateDiagram E f c cfg s = Inr (r, s1) \<longrightarrow>
      r = f \<and> generateDiagram E f c' cfg s1 = Inr (f, s1)) \<and>
   (\<forall>tags tags' s'. each_puml E cfg tags s = Inr (tags', s') \<longrightarrow>
      (\<exists>new. spawned s' = spawned s @ new \<and> distinct (map fst new) \<and>
             set (map fst new) = cmd E ` (processedDiagrams s' - processedDiagrams s)))"
proof (intro conjI allI impI)
  show "generateDiagram E f c cfg s = Inr (f, s)" if "outputFilePath E cfg f \<in> processedDiagrams s"
    using that by (rule generateDiagram_seen)
next
  fix r s1 assume gd: "generateDiagram E f c cfg s = Inr (r, s1)"
  show "r = f"
    using gd by (auto simp: generateDiagram_def Let_def split: if_splits sum.splits)
  have "outputFilePath E cfg f \<in> processedDiagrams s1"
    using gd by (auto simp: generateDiagram_def Let_def split: if_splits sum.splits)
  then show "generateDiagram E f c' cfg s1 = Inr (f, s1)" by (rule generateDiagram_seen)
next
  fix tags tags' s' assume "each_puml E cfg tags s = Inr (tags', s')"
  from each_puml_Inr [OF this]
  show "\<exists>new. spawned s' = spawned s @ new \<and> distinct (map fst new) \<and>
             set (map fst new) = cmd E ` (processedDiagrams s' - processedDiagrams s)"
    by blast
qed


theorem generateDiagram_idempotent_witness:
  "generateDiagram demo_env ''old.png'' ''a->b'' demo_config demo_state = Inr (''old.png'', demo_state) \<and>
   generateDiagram demo_env ''b>-a.png'' ''a->b'' demo_config demo_state = Inr (''b>-a.png'', demo_mid) \<and>
   generateDiagram demo_env ''b>-a.png'' ''c->d'' demo_config demo_mid = Inr (''b>-a.png'', demo_mid) \<and>
   (\<exists>new. spawned (demo_after\<lparr>processedDiagrams := {''out/d/x.png'', ''out/b>-a.png'', ''out/old.png''}\<rparr>) =
            spawned demo_state @ new \<and> distinct (map fst new) \<and>
          set (map fst new) =
            cmd demo_env ` ({''out/d/x.png'', ''out/b>-a.png'', ''out/old.png''} - processedDiagrams demo_state))"
proof -
  have in_cache: "outputFilePath demo_env demo_config ''old.png'' \<in> processedDiagrams demo_state"
    by (simp add: demo_defs)
  note idem = generateDiagram_idempotent [where E = demo_env and cfg = demo_config and s = demo_state]
  from idem [where f = "''old.png''" and c = "''a->b''"] in_cache
  have a: "generateDiagram demo_env ''old.png'' ''a->b'' demo_config demo_state = Inr (''old.png'', demo_state)"
    by blast
  from idem [where f = "''b>-a.png''" and c = "''a->b''" and c' = "''c->d''"] demo_generateDiagram
  have b: "generateDiagram demo_env ''b>-a.png'' ''c->d'' demo_config demo_mid = Inr (''b>-a.png'', demo_mid)"
    by blast
  from idem [where f = "''b>-a.png''" and c = "''a->b''"] demo_each_puml
  have c: "\<exists>new. spawned (demo_after\<lparr>processedDiagrams := {''out/d/x.png'', ''out/b>-a.png'', ''out/old.png''}\<rparr>) =
            spawned demo_state @ new \<and> distinct (map fst new) \<and>
          set (map fst new) =
            cmd demo_env ` (processedDiagrams (demo_after\<lparr>processedDiagrams := {''out/d/x.png'', ''out/b>-a.png'', ''out/old.png''}\<rparr>) - processedDiagrams demo_state)"
    by blast
  from a b c demo_generateDiagram show ?thesis by simp
qed

text \<open>
  Claim C3. \<^verbatim>\<open>preRender\<close> clears \<^verbatim>\<open>processedDiagrams\<close> before it processes any
  tag: its whole outcome is the same whatever the set held when it was called. When
  it returns, the set holds exactly the output paths of the \<^verbatim>\<open>puml\<close> tags of this
  document, and the renderer commands started by this pass are those of exactly
  these paths.
\<close>

theorem preRender_clears_cache:
  "preRender E content cfg (s\<lparr>processedDiagrams := P\<rparr>) =
     preRender E content cfg (s\<lparr>processedDiagrams := Q\<rparr>) \<and>
   (\<forall>out s'. preRender E content cfg (s\<lparr>processedDiagrams := P\<rparr>) = Inr (out, s') \<longrightarrow>
      processedDiagrams s' =
        (\<lambda>t. outputFilePath E cfg (diagram_file E t)) ` set (select_nodes (cheerio_load E content)) \<and>
      (\<exists>new. spawned s' = spawned s @ new \<and>
             set (map fst new) = cmd E ` processedDiagrams s'))"
proof (intro conjI allI impI)
  show "preRender E content cfg (s\<lparr>processedDiagrams := P\<rparr>) =
     preRender E content cfg (s\<lparr>processedDiagrams := Q\<rparr>)"
    by (simp add: preRender_def)
next
  fix out s' assume "preRender E content cfg (s\<lparr>processedDiagrams := P\<rparr>) = Inr (out, s')"
  then obtain ms where
    loop: "each_puml E cfg (select_nodes (cheerio_load E content)) (s\<lparr>processedDiagrams := {}\<rparr>) = Inr (ms, s')"
    by (auto simp: preRender_def Let_def split: sum.splits)
  from each_puml_Inr [OF loop]
  show "processedDiagrams s' =
        (\<lambda>t. outputFilePath E cfg (diagram_file E t)) ` set (select_nodes (cheerio_load E content))"
    and "\<exists>new. spawned s' = spawned s @ new \<and> set (map fst new) = cmd E ` processedDiagrams s'"
    by auto
qed

theorem preRender_clears_cache_witness:
  "preRender demo_env ''demo'' demo_config (demo_state\<lparr>processedDiagrams := {''out/b>-a.png''}\<rparr>) =
     Inr (''<p>see<pic width=300 src=b>-a.png></pic><pic src=b>-a.png></pic></p><pic src=d/x.png></pic>'',
          demo_after) \<and>
   processedDiagrams demo_after =
     (\<lambda>t. outputFilePath demo_env demo_config (diagram_file demo_env t)) `
       set (select_nodes (cheerio_load demo_env ''demo'')) \<and>
   (\<exists>new. spawned demo_after = spawned demo_state @ new \<and>
          set (map fst new) = cmd demo_env ` processedDiagrams demo_after)"
proof -
  have eq: "preRender demo_env ''demo'' demo_config (demo_state\<lparr>processedDiagrams := {''out/b>-a.png''}\<rparr>) =
     preRender demo_env ''demo'' demo_config (demo_state\<lparr>processedDiagrams := {''out/old.png''}\<rparr>)"
    using preRender_clears_cache [where E = demo_env and content = "''demo''" and cfg = demo_config
        and s = demo_state and P = "{''out/b>-a.png''}" and Q = "{''out/old.png''}"]
    by blast
  have "demo_state\<lparr>processedDiagrams := {''out/old.png''}\<rparr> = demo_state"
    by (simp add: demo_state_def)
  with eq demo_preRender have h:
    "preRender demo_env ''demo'' demo_config (demo_state\<lparr>processedDiagrams := {''out/b>-a.png''}\<rparr>) =
       Inr (''<p>see<pic width=300 src=b>-a.png></pic><pic src=b>-a.png></pic></p><pic src=d/x.png></pic>'',
            demo_after)"
    by simp
  from preRender_clears_cache [where E = demo_env and content = "''demo''" and cfg = demo_config
      and s = demo_state and P = "{''out/b>-a.png''}" and Q = "{}"] h
  have "processedDiagrams demo_after =
     (\<lambda>t. outputFilePath demo_env demo_config (diagram_file demo_env t)) `
       set (select_nodes (cheerio_load demo_env ''demo'')) \<and>
   (\<exists>new. spawned demo_after = spawned demo_state @ new \<and>
          set (map fst new) = cmd demo_env ` processedDiagrams demo_after)"
    by blast
  with h show ?thesis by blast
qed

text \<open>
  The file name \<^verbatim>\<open>generateDiagram\<close> returns for a tag's content, whatever the
  content of a tag with \<^verbatim>\<open>src\<close> was read as, is \<open>diagram_file\<close>.
\<close>

lemma generateDiagram_returns_diagram_file:
  assumes "getContent E t cwf cfg s = (c, s1)"
    and "generateDiagram E (getFileName E (attribs t) c) c cfg s1 = Inr (r, s2)"
  shows "r = diagram_file E t"
  using assms getContent_keeps(4) [OF assms(1)]
  by (auto simp: generateDiagram_def Let_def split: if_splits sum.splits)

text \<open>
  Claim C4. When \<^verbatim>\<open>preRender\<close> returns, the loop has left every \<^verbatim>\<open>puml\<close> tag
  of the input (also one inside another \<^verbatim>\<open>puml\<close> tag) named \<^verbatim>\<open>pic\<close>, with
  \<^verbatim>\<open>src\<close> set to the file name \<^verbatim>\<open>generateDiagram\<close> returned for its content and
  with no children, and the string returned is \<^verbatim>\<open>$.html()\<close> of the input
  document with these tags converted and nothing else changed.
\<close>

theorem preRender_converts_puml_tags:
  assumes "preRender E content cfg s = Inr (out, s')"
  shows "out = cheerio_html E (converted_nodes E (cheerio_load E content)) \<and>
         each_puml E cfg (select_nodes (cheerio_load E content)) (s\<lparr>processedDiagrams := {}\<rparr>) =
           Inr (map (converted E) (select_nodes (cheerio_load E content)), s')"
proof -
  let ?doc = "cheerio_load E content"
  from assms obtain ms where
    loop: "each_puml E cfg (select_nodes ?doc) (s\<lparr>processedDiagrams := {}\<rparr>) = Inr (ms, s')"
    and out: "out = cheerio_html E (fst (write_back_nodes ?doc ms))"
    by (auto simp: preRender_def Let_def split: sum.splits)
  from each_puml_Inr [OF loop] have ms: "ms = map (converted E) (select_nodes ?doc)" by blast
  from write_back_converted(3) [of ?doc E "[]"]
  have "fst (write_back_nodes ?doc ms) = converted_nodes E ?doc" by (simp add: ms)
  with out loop ms show ?thesis by simp
qed

theorem preRender_converts_puml_tags_witness:
  "preRender demo_env ''demo'' demo_config demo_state =
     Inr (''<p>see<pic width=300 src=b>-a.png></pic><pic src=b>-a.png></pic></p><pic src=d/x.png></pic>'',
          demo_after) \<and>
   cheerio_html demo_env (converted_nodes demo_env (cheerio_load demo_env ''demo'')) =
     ''<p>see<pic width=300 src=b>-a.png></pic><pic src=b>-a.png></pic></p><pic src=d/x.png></pic>'' \<and>
   each_puml demo_env demo_config (select_nodes (cheerio_load demo_env ''demo''))
       (demo_state\<lparr>processedDiagrams := {}\<rparr>) =
     Inr (map (converted demo_env) (select_nodes (cheerio_load demo_env ''demo'')), demo_after)"
  using demo_preRender preRender_converts_puml_tags [OF demo_preRender]
  by simp

text \<open>
  Claim C5. Rendering is deterministic: two runs of \<^verbatim>\<open>preRender\<close> on the same
  content and the same config, in states with the same file system, end the same
  way, with the same output string or the same exception, whatever the set, the
  started processes and the log were before.
\<close>

theorem preRender_deterministic:
  assumes "fs s = fs t"
  shows "map_sum id fst (preRender E content cfg s) = map_sum id fst (preRender E content cfg t)"
proof -
  have "rel_sum (=) (\<lambda>(r, s') (r', t'). r = r' \<and> processedDiagrams s' = processedDiagrams t' \<and> fs s' = fs t')
           (each_puml E cfg (select_nodes (cheerio_load E content)) (s\<lparr>processedDiagrams := {}\<rparr>))
           (each_puml E cfg (select_nodes (cheerio_load E content)) (t\<lparr>processedDiagrams := {}\<rparr>))"
    using assms by (intro each_puml_core) simp_all
  then show ?thesis
    by (auto simp: preRender_def Let_def rel_sum.simps split: sum.splits)
qed

theorem preRender_deterministic_witness:
  "fs demo_state = fs (demo_mid\<lparr>logged := [Error ''earlier'']\<rparr>) \<and>
   map_sum id fst (preRender demo_env ''demo'' demo_config (demo_mid\<lparr>logged := [Error ''earlier'']\<rparr>)) =
     Inr ''<p>see<pic width=300 src=b>-a.png></pic><pic src=b>-a.png></pic></p><pic src=d/x.png></pic>''"
proof -
  have h: "fs demo_state = fs (demo_mid\<lparr>logged := [Error ''earlier'']\<rparr>)"
    by (simp add: demo_mid_def)
  from preRender_deterministic [OF h, of demo_env "''demo''" demo_config] demo_preRender h
  show ?thesis by simp
qed

text \<open>
  Claim C8. For a \<^verbatim>\<open>puml\<close> element with a \<^verbatim>\<open>src\<close> attribute whose file cannot
  be read, \<^verbatim>\<open>getContent\<close> returns the empty string; the exception is logged, not
  propagated. The callback then goes on as \<^verbatim>\<open>generateDiagram\<close> does on the empty
  content: when that call returns, the tag is converted.
\<close>

theorem unreadable_src_gives_empty_content:
  assumes "map_of (attribs t) ''src'' = Some src"
    and "readFileSync E (fs s) (rawDiagramPath E cfg cwf src) = Inl err"
  shows "getContent E t cwf cfg s =
           ([], s\<lparr>logged := logged s @
                  [Debug err, Error (ERR_READING E @ '' '' @ rawDiagramPath E cfg cwf src)]\<rparr>) \<and>
         (cwf = map_of (attribs t) ''cwf'' \<longrightarrow>
            puml_callback E cfg t s =
              (case generateDiagram E (diagram_file E t) [] cfg
                      (s\<lparr>logged := logged s @
                         [Debug err, Error (ERR_READING E @ '' '' @ rawDiagramPath E cfg cwf src)]\<rparr>) of
                 Inl e \<Rightarrow> Inl e
               | Inr (r, s2) \<Rightarrow> Inr (converted E t, s2)))"
proof (intro conjI impI)
  let ?s1 = "s\<lparr>logged := logged s @
                  [Debug err, Error (ERR_READING E @ '' '' @ rawDiagramPath E cfg cwf src)]\<rparr>"
  show gc: "getContent E t cwf cfg s = ([], ?s1)"
    using assms by (simp add: getContent_def)
  assume cwf: "cwf = map_of (attribs t) ''cwf''"
  have fn: "getFileName E (attribs t) [] = diagram_file E t"
    using getContent_keeps(4) [OF gc] .
  show "puml_callback E cfg t s =
      (case generateDiagram E (diagram_file E t) [] cfg ?s1 of
         Inl e \<Rightarrow> Inl e | Inr (r, s2) \<Rightarrow> Inr (converted E t, s2))"
  proof (cases "generateDiagram E (diagram_file E t) [] cfg ?s1")
    case (Inl e)
    then show ?thesis using gc cwf fn by (simp add: puml_callback_def)
  next
    case (Inr a)
    obtain r s2 where a: "a = (r, s2)" by (cases a)
    have "r = diagram_file E t"
      using generateDiagram_returns_diagram_file [OF gc] Inr a fn by simp
    then show ?thesis using gc cwf fn Inr a by (simp add: puml_callback_def converted_def)
  qed
qed


theorem unreadable_src_gives_empty_content_witness:
  "map_of (attribs (Element ''puml'' [(''src'', ''d/x.puml'')] [Text ''a->b''])) ''src'' = Some ''d/x.puml'' \<and>
   readFileSync demo_env (fs demo_state) (rawDiagramPath demo_env demo_config None ''d/x.puml'') =
     Inl (Exn ''ENOENT'') \<and>
   getContent demo_env (Element ''puml'' [(''src'', ''d/x.puml'')] [Text ''a->b'']) None demo_config
       demo_state =
     ([], demo_state\<lparr>logged := [Debug (Exn ''ENOENT''), Error ''Error reading site/d/x.puml'']\<rparr>) \<and>
   puml_callback demo_env demo_config (Element ''puml'' [(''src'', ''d/x.puml'')] [Text ''a->b''])
       demo_state =
     Inr (Element ''pic'' [(''src'', ''d/x.png'')] [],
          \<lparr>processedDiagrams = {''out/d/x.png'', ''out/old.png''},
           fs = \<lparr>dirs = [''out/d'', ''out''], files = []\<rparr>,
           spawned = [(cmd demo_env ''out/d/x.png'', [])],
           logged = [Debug (Exn ''ENOENT''), Error ''Error reading site/d/x.puml'']\<rparr>)"
proof -
  let ?t = "Element ''puml'' [(''src'', ''d/x.puml'')] [Text ''a->b'']"
  have h1: "map_of (attribs ?t) ''src'' = Some ''d/x.puml''" by simp
  have h2: "readFileSync demo_env (fs demo_state)
      (rawDiagramPath demo_env demo_config None ''d/x.puml'') = Inl (Exn ''ENOENT'')"
    by (simp add: demo_defs)
  have h3: "None = map_of (attribs ?t) ''cwf''" by simp
  have p: "rawDiagramPath demo_env demo_config None ''d/x.puml'' = ''site/d/x.puml''"
    by (simp add: demo_defs)
  have g: "generateDiagram demo_env (diagram_file demo_env ?t) [] demo_config
      (demo_state\<lparr>logged := [Debug (Exn ''ENOENT''), Error ''Error reading site/d/x.puml'']\<rparr>) =
     Inr (''d/x.png'',
          \<lparr>processedDiagrams = {''out/d/x.png'', ''out/old.png''},
           fs = \<lparr>dirs = [''out/d'', ''out''], files = []\<rparr>,
           spawned = [(cmd demo_env ''out/d/x.png'', [])],
           logged = [Debug (Exn ''ENOENT''), Error ''Error reading site/d/x.puml'']\<rparr>)"
    by (simp add: demo_defs diagram_file_def Let_def)
  have l: "logged demo_state = []" by (simp add: demo_state_def)
  have cv: "converted demo_env ?t = Element ''pic'' [(''src'', ''d/x.png'')] []"
    by (simp add: converted_def diagram_file_def demo_defs)
  from unreadable_src_gives_empty_content [OF h1 h2] h3
  have "getContent demo_env ?t None demo_config demo_state =
     ([], demo_state\<lparr>logged := [Debug (Exn ''ENOENT''), Error ''Error reading site/d/x.puml'']\<rparr>) \<and>
   puml_callback demo_env demo_config ?t demo_state =
     Inr (Element ''pic'' [(''src'', ''d/x.png'')] [],
          \<lparr>processedDiagrams = {''out/d/x.png'', ''out/old.png''},
           fs = \<lparr>dirs = [''out/d'', ''out''], files = []\<rparr>,
           spawned = [(cmd demo_env ''out/d/x.png'', [])],
           logged = [Debug (Exn ''ENOENT''), Error ''Error reading site/d/x.puml'']\<rparr>)"
    by (simp add: p g l cv demo_env_sel)
  with h1 h2 show ?thesis by blast
qed

section \<open>The list core: ordered items\<close>

lemma ws_prefix:
  assumes "set ind \<subseteq> {CHR '' '', CHR 0x09}" and "\<not> is_ws c"
  shows "dropWhile is_ws (ind @ c # rest) = c # rest"
    and "indent_width (ind @ c # rest) = indent_width ind"
  using assms by (induction ind) (auto simp: is_ws_def)

lemma marker_ends_iff: "marker_ends r \<longleftrightarrow> r = [] \<or> hd r \<in> {CHR '' '', CHR 0x09}"
  by (cases r) (auto simp: marker_ends_def is_ws_def)

lemma classify_one_dot:
  assumes "set ind \<subseteq> {CHR '' '', CHR 0x09}" and "marker_ends r"
  shows "classify st (ind @ ''1.'' @ r) = item_line st (ind @ ''1.'' @ r) (Ordered 1) r"
proof -
  have body: "dropWhile is_ws (ind @ ''1.'' @ r) = ''1.'' @ r"
    using ws_prefix(1) [OF assms(1), of "CHR ''1''" "''.'' @ r"] by (simp add: is_ws_def)
  show ?thesis
    unfolding classify_def body Let_def using assms(2)
    by (simp add: match_task_def match_radio_def match_unordered_def match_ordered_def
        starts_with_def is_digit_def parse_digits_def)
qed

lemma item_line_tok:
  "\<exists>d. fst (item_line st l k rest) = Tok \<lparr>tdepth = d, tkind = k, ttext = item_text rest\<rparr>"
  by (simp add: item_line_def Let_def)

lemma item_line_flat:
  assumes "list_base st = None \<or> list_base st = Some (indent_width l)" and "indent_unit st = None"
  shows "fst (item_line st l k rest) = Tok \<lparr>tdepth = 0, tkind = k, ttext = item_text rest\<rparr>"
    and "list_base (snd (item_line st l k rest)) = Some (indent_width l)"
    and "indent_unit (snd (item_line st l k rest)) = None"
  using assms by (auto simp: item_line_def Let_def depth_of_def)

lemma tokenize_from_flat:
  assumes "set ind \<subseteq> {CHR '' '', CHR 0x09}" and "\<forall>r\<in>set rs. marker_ends r"
    and "list_base st = None \<or> list_base st = Some (indent_width ind)" and "indent_unit st = None"
  shows "tokenize_from st (map (\<lambda>r. ind @ ''1.'' @ r) rs) =
         map (\<lambda>r. Tok \<lparr>tdepth = 0, tkind = Ordered 1, ttext = item_text r\<rparr>) rs"
  using assms(2-)
proof (induction rs arbitrary: st)
  case Nil
  then show ?case by simp
next
  case (Cons r rs)
  let ?l = "ind @ ''1.'' @ r"
  have w: "indent_width ?l = indent_width ind"
    using ws_prefix(2) [OF assms(1), of "CHR ''1''" "''.'' @ r"] by (simp add: is_ws_def)
  have c: "classify st ?l = item_line st ?l (Ordered 1) r"
    using Cons.prems(1) by (intro classify_one_dot assms(1)) simp
  have base: "list_base st = None \<or> list_base st = Some (indent_width ?l)"
    using Cons.prems(2) w by simp
  note f = item_line_flat [OF base Cons.prems(3), of "Ordered 1" r]
  have "tokenize_from (snd (item_line st ?l (Ordered 1) r)) (map (\<lambda>r. ind @ ''1.'' @ r) rs) =
         map (\<lambda>r. Tok \<lparr>tdepth = 0, tkind = Ordered 1, ttext = item_text r\<rparr>) rs"
    using Cons.prems(1) f(2,3) w by (intro Cons.IH) simp_all
  with f(1) show ?case
    by (simp add: c split_beta del: append.simps)
qed


lemma tokenize_from_one_dot_any:
  assumes "\<forall>(ind, r)\<in>set irs. set ind \<subseteq> {CHR '' '', CHR 0x09} \<and> marker_ends r"
  shows "list_all2 (\<lambda>c (ind, r). \<exists>d. c = Tok \<lparr>tdepth = d, tkind = Ordered 1, ttext = item_text r\<rparr>)
           (tokenize_from st (map (\<lambda>(ind, r). ind @ ''1.'' @ r) irs)) irs"
  using assms
proof (induction irs arbitrary: st)
  case Nil
  then show ?case by simp
next
  case (Cons ir irs)
  obtain ind r where ir: "ir = (ind, r)" by (cases ir)
  from Cons.prems ir have h: "set ind \<subseteq> {CHR '' '', CHR 0x09}" "marker_ends r" by auto
  from item_line_tok [of st "ind @ ''1.'' @ r" "Ordered 1" r] obtain d where
    d: "fst (item_line st (ind @ ''1.'' @ r) (Ordered 1) r) =
        Tok \<lparr>tdepth = d, tkind = Ordered 1, ttext = item_text r\<rparr>" by blast
  have "list_all2 (\<lambda>c (ind, r). \<exists>d. c = Tok \<lparr>tdepth = d, tkind = Ordered 1, ttext = item_text r\<rparr>)
           (tokenize_from (snd (item_line st (ind @ ''1.'' @ r) (Ordered 1) r))
              (map (\<lambda>(ind, r). ind @ ''1.'' @ r) irs)) irs"
    using Cons.prems by (intro Cons.IH) simp
  with d show ?case
    by (simp add: ir classify_one_dot [OF h] case_prod_unfold del: append.simps)
qed

lemma texts_nodes_append: "texts_nodes (xs @ ys) = texts_nodes xs @ texts_nodes ys"
  by (induction xs) simp_all

lemma texts_node_add_child: "texts_node (add_child p n) = texts_node p @ texts_node n"
  by (cases p) (simp add: add_child_def texts_nodes_append)

lemma ordered_forest_append: "ordered_forest (xs @ ys) = (ordered_forest xs \<and> ordered_forest ys)"
  by (induction xs) simp_all

lemma ordered_tree_add_child:
  "ordered_tree p \<Longrightarrow> ordered_tree n \<Longrightarrow> ordered_tree (add_child p n)"
  by (cases p) (simp add: add_child_def ordered_forest_append)

lemma close_frames_texts:
  "close_frames P st rs = (st', rs') \<Longrightarrow>
   texts_nodes rs' @ concat (map (texts_node \<circ> snd) (rev st')) =
   texts_nodes rs @ concat (map (texts_node \<circ> snd) (rev st))"
  by (induction P st rs arbitrary: st' rs' rule: close_frames.induct)
     (auto simp: texts_nodes_append texts_node_add_child split: if_splits)

lemma close_frames_ordered:
  "close_frames P st rs = (st', rs') \<Longrightarrow> ordered_forest rs \<Longrightarrow>
   list_all (ordered_tree \<circ> snd) st \<Longrightarrow>
   ordered_forest rs' \<and> list_all (ordered_tree \<circ> snd) st'"
  by (induction P st rs arbitrary: st' rs' rule: close_frames.induct)
     (auto simp: ordered_forest_append ordered_tree_add_child split: if_splits)

lemma close_frames_all: "fst (close_frames (\<lambda>d. True) st rs) = []"
  by (induction "\<lambda>d::nat. True" st rs rule: close_frames.induct) simp_all

lemma step_ordered_item:
  assumes "ordered_forest (roots b)" "list_all (ordered_tree \<circ> snd) (stack b)"
  shows "finished (step b (Tok \<lparr>tdepth = d, tkind = Ordered n, ttext = x\<rparr>)) = finished b"
    and "ordered_forest (roots (step b (Tok \<lparr>tdepth = d, tkind = Ordered n, ttext = x\<rparr>)))"
    and "list_all (ordered_tree \<circ> snd) (stack (step b (Tok \<lparr>tdepth = d, tkind = Ordered n, ttext = x\<rparr>)))"
    and "open_texts (step b (Tok \<lparr>tdepth = d, tkind = Ordered n, ttext = x\<rparr>)) = open_texts b @ [x]"
proof -
  obtain st' rs' where c: "close_frames (\<lambda>e. d \<le> e) (stack b) (roots b) = (st', rs')"
    by (cases "close_frames (\<lambda>e. d \<le> e) (stack b) (roots b)")
  have s: "step b (Tok \<lparr>tdepth = d, tkind = Ordered n, ttext = x\<rparr>) =
           b\<lparr>stack := (d, ListNode (IOrdered n) x []) # st', roots := rs', blank_seen := False\<rparr>"
    by (simp add: step_def c)
  show "finished (step b (Tok \<lparr>tdepth = d, tkind = Ordered n, ttext = x\<rparr>)) = finished b"
    by (simp add: s)
  from close_frames_ordered [OF c assms]
  show "ordered_forest (roots (step b (Tok \<lparr>tdepth = d, tkind = Ordered n, ttext = x\<rparr>)))"
    and "list_all (ordered_tree \<circ> snd) (stack (step b (Tok \<lparr>tdepth = d, tkind = Ordered n, ttext = x\<rparr>)))"
    by (simp_all add: s)
  from close_frames_texts [OF c]
  show "open_texts (step b (Tok \<lparr>tdepth = d, tkind = Ordered n, ttext = x\<rparr>)) = open_texts b @ [x]"
    by (simp add: s open_texts_def)
qed

lemma foldl_step_ordered_items:
  assumes "list_all2 (\<lambda>c x. \<exists>d n. c = Tok \<lparr>tdepth = d, tkind = Ordered n, ttext = x\<rparr>) cs xs"
    and "ordered_forest (roots b)" "list_all (ordered_tree \<circ> snd) (stack b)"
  shows "finished (foldl step b cs) = finished b \<and>
         ordered_forest (roots (foldl step b cs)) \<and>
         list_all (ordered_tree \<circ> snd) (stack (foldl step b cs)) \<and>
         open_texts (foldl step b cs) = open_texts b @ xs"
  using assms
proof (induction cs xs arbitrary: b rule: list_all2_induct)
  case Nil
  then show ?case by simp
next
  case (Cons c cs x xs)
  then obtain d n where c: "c = Tok \<lparr>tdepth = d, tkind = Ordered n, ttext = x\<rparr>" by blast
  note s = step_ordered_item [OF Cons.prems, of d n x]
  from Cons.IH [OF s(2,3)] s(1,4) show ?case by (simp add: c)
qed

lemma build_ordered_items:
  assumes "list_all2 (\<lambda>c x. \<exists>d n. c = Tok \<lparr>tdepth = d, tkind = Ordered n, ttext = x\<rparr>) cs xs"
    and "xs \<noteq> []"
  shows "\<exists>forest. build cs = [forest] \<and> ordered_forest forest \<and> texts_nodes forest = xs"
proof -
  let ?b = "foldl step builder_init cs"
  have i: "finished ?b = []" "ordered_forest (roots ?b)"
    "list_all (ordered_tree \<circ> snd) (stack ?b)" "open_texts ?b = xs"
    using foldl_step_ordered_items [OF assms(1), of builder_init]
    by (simp_all add: builder_init_def open_texts_def)
  obtain st' rs' where c: "close_frames (\<lambda>d. True) (stack ?b) (roots ?b) = (st', rs')"
    by (cases "close_frames (\<lambda>d. True) (stack ?b) (roots ?b)")
  with close_frames_all [of "stack ?b" "roots ?b"] have st': "st' = []" by simp
  from close_frames_texts [OF c] i(4) st' have t: "texts_nodes rs' = xs"
    by (simp add: open_texts_def)
  with assms(2) have ne: "rs' \<noteq> []" by auto
  from close_frames_ordered [OF c i(2,3)] have o: "ordered_forest rs'" by simp
  have "build cs = [rs']" by (simp add: build_def flush_def c i(1) ne)
  with o t show ?thesis by blast
qed

lemma step_ordered_same_depth:
  assumes "stack b = [(d, n)]"
  shows "step b (ordered_tok d oc) =
         b\<lparr>stack := [(d, ordered_node oc)], roots := roots b @ [n], blank_seen := False\<rparr>"
  using assms by (simp add: step_def ordered_tok_def ordered_node_def)

lemma flush_ordered_run:
  assumes "stack b = [(d, n)]"
  shows "finished (flush (foldl step b (map (ordered_tok d) ocs))) =
         finished b @ [roots b @ n # map ordered_node ocs]"
  using assms
proof (induction ocs arbitrary: b n)
  case Nil
  then show ?case by (simp add: flush_def)
next
  case (Cons oc ocs)
  let ?b' = "b\<lparr>stack := [(d, ordered_node oc)], roots := roots b @ [n], blank_seen := False\<rparr>"
  have "stack ?b' = [(d, ordered_node oc)]" by simp
  from Cons.IH [OF this] step_ordered_same_depth [OF Cons.prems, of oc]
  show ?case by simp
qed

lemma build_ordered_run:
  "build (map (ordered_tok d) (oc # ocs)) = [map ordered_node (oc # ocs)]"
proof -
  let ?b = "builder_init\<lparr>stack := [(d, ordered_node oc)], blank_seen := False\<rparr>"
  have first: "step builder_init (ordered_tok d oc) = ?b"
    by (simp add: step_def ordered_tok_def ordered_node_def builder_init_def)
  have "stack ?b = [(d, ordered_node oc)]" by simp
  from flush_ordered_run [OF this, of ocs] first show ?thesis
    by (simp add: build_def builder_init_def)
qed

lemma render_ordered_run:
  "render_nodes i (map ordered_node ocs) =
   concat (map (\<lambda>(k, oc). ''<li value='' @ decimal k @ ''>'' @ snd oc @ ''</li>'')
     (zip [i..<i + length ocs] ocs))"
proof (induction ocs arbitrary: i)
  case Nil
  then show ?case by simp
next
  case (Cons oc ocs)
  have "[i..<i + length (oc # ocs)] = i # [Suc i..<Suc i + length ocs]"
    by (simp add: upt_rec)
  with Cons.IH [of "Suc i"] show ?case
    by (simp add: ordered_node_def del: decimal.simps)
qed

lemma list_tag_ordered: "list_tag (map ordered_node ocs) = ''ol''"
  by (simp add: list_tag_def list_all_iff ordered_node_def)

lemma render_build_ordered_run:
  assumes "ocs \<noteq> []"
  shows "concat (map render_forest (build (map (ordered_tok d) ocs))) =
     ''<ol>'' @
     concat (map (\<lambda>(k, oc). ''<li value='' @ decimal k @ ''>'' @ snd oc @ ''</li>'')
       (zip [1..<Suc (length ocs)] ocs)) @
     ''</ol>''"
proof -
  from assms obtain oc ocs' where ocs: "ocs = oc # ocs'" by (cases ocs) auto
  have "build (map (ordered_tok d) ocs) = [map ordered_node ocs]"
    unfolding ocs by (rule build_ordered_run)
  then show ?thesis
    using assms render_ordered_run [of 1 ocs]
    by (simp add: render_forest_def list_tag_ordered del: decimal.simps)
qed

lemma render_node_forest:
  "render_node i (ListNode k c cs) = item_open i k @ c @ render_forest cs @ ''</li>''"
  by (simp add: render_forest_def)

lemma render_nodes_ordered:
  "list_all is_ordered ns \<Longrightarrow>
   render_nodes i ns =
   concat (map (\<lambda>(k, n). ''<li value='' @ decimal k @ ''>'' @ node_content n @
                    render_forest (node_children n) @ ''</li>'')
     (zip [i..<i + length ns] ns))"
proof (induction ns arbitrary: i)
  case Nil
  then show ?case by simp
next
  case (Cons n ns)
  from Cons.prems obtain m c cs where n: "n = ListNode (IOrdered m) c cs"
    by (cases n rule: is_ordered.cases) auto
  have u: "[i..<i + length (n # ns)] = i # [Suc i..<Suc i + length ns]"
    by (simp add: upt_rec)
  from Cons.prems have "list_all is_ordered ns" by simp
  from Cons.IH [OF this, of "Suc i"] show ?case
    unfolding u by (simp add: n render_node_forest del: decimal.simps render_node.simps)
qed

lemma render_forest_ordered:
  assumes "list_all is_ordered ns" "ns \<noteq> []"
  shows "render_forest ns =
     ''<ol>'' @
     concat (map (\<lambda>(k, n). ''<li value='' @ decimal k @ ''>'' @ node_content n @
                      render_forest (node_children n) @ ''</li>'')
       (zip [1..<Suc (length ns)] ns)) @
     ''</ol>''"
  using assms render_nodes_ordered [OF assms(1), of 1]
  by (simp add: render_forest_def list_tag_def del: decimal.simps)

lemma ordered_forest_levels:
  "ordered_forest ns \<Longrightarrow> list_all is_ordered ns \<and> (\<forall>n\<in>set ns. ordered_forest (node_children n))"
proof (induction ns)
  case Nil
  then show ?case by simp
next
  case (Cons n ns)
  then show ?case by (cases n rule: is_ordered.cases) auto
qed

lemma is_ordered_relabel: "is_ordered (relabel_node f n) = is_ordered n"
  by (cases n rule: is_ordered.cases) auto

lemma list_tag_relabel: "list_tag (relabel_nodes f ns) = list_tag ns"
proof -
  have "list_all is_ordered (relabel_nodes f ns) = list_all is_ordered ns"
    by (induction ns) (simp_all add: is_ordered_relabel)
  then show ?thesis by (simp add: list_tag_def)
qed

lemma relabel_nodes_Nil: "relabel_nodes f ns = [] \<longleftrightarrow> ns = []"
  by (cases ns) simp_all

lemma item_open_relabel: "item_open i (relabel_kind f k) = item_open i k"
  by (cases k) (simp_all del: decimal.simps)

lemma render_relabel:
  "render_node i (relabel_node f n) = render_node i n"
  "render_nodes i (relabel_nodes f ns) = render_nodes i ns"
  by (induction i n and i ns rule: render_node_render_nodes.induct)
     (simp_all add: item_open_relabel list_tag_relabel relabel_nodes_Nil is_ordered_relabel
        del: item_open.simps)

lemma render_forest_relabel: "render_forest (relabel_nodes f ns) = render_forest ns"
  by (simp add: render_forest_def render_relabel list_tag_relabel relabel_nodes_Nil)


lemma levels_nodes_append: "levels_nodes d (xs @ ys) = levels_nodes d xs @ levels_nodes d ys"
  by (induction xs) simp_all

lemma levels_node_add_child:
  "levels_node e (add_child p n) = levels_node e p @ levels_node (Suc e) n"
  by (cases p) (simp add: add_child_def levels_nodes_append)

lemma close_frames_levels:
  assumes "map fst st = rev [0..<length st]" and "d \<le> length st"
    and "close_frames (\<lambda>e. d \<le> e) st rs = (st', rs')"
  shows "map fst st' = rev [0..<d] \<and>
         levels_nodes 0 rs' @ concat (map (\<lambda>(e, n). levels_node e n) (rev st')) =
         levels_nodes 0 rs @ concat (map (\<lambda>(e, n). levels_node e n) (rev st))"
  using assms
proof (induction "\<lambda>e::nat. d \<le> e" st rs arbitrary: st' rs' rule: close_frames.induct)
  case (1 rs)
  then show ?case by simp
next
  case (2 d0 n rs)
  then have "d0 = 0" by simp
  show ?case
  proof (cases "d = 0")
    case True
    with 2 \<open>d0 = 0\<close> show ?thesis by (auto simp: levels_nodes_append)
  next
    case False
    with "2.prems"(2) have "d = Suc 0" by simp
    with 2 \<open>d0 = 0\<close> show ?thesis by auto
  qed
next
  case (3 d1 n d2 p st rs)
  from "3.prems"(1) have d: "d1 = Suc (length st)" "d2 = length st"
    and st: "map fst st = rev [0..<length st]"
    by simp_all
  show ?case
  proof (cases "d \<le> d1")
    case True
    have a: "map fst ((d2, add_child p n) # st) = rev [0..<length ((d2, add_child p n) # st)]"
      using d st by simp
    have b: "d \<le> length ((d2, add_child p n) # st)" using True d by simp
    have c: "close_frames (\<lambda>e. d \<le> e) ((d2, add_child p n) # st) rs = (st', rs')"
      using "3.prems"(3) True by simp
    from "3.hyps" [OF True a b c] show ?thesis
      by (simp add: levels_node_add_child d)
  next
    case False
    with "3.prems"(2) d have "d = Suc (Suc (length st))" by simp
    with False "3.prems" show ?thesis by auto
  qed
qed


lemma step_ordered_levels:
  assumes "map fst (stack b) = rev [0..<length (stack b)]" and "d \<le> length (stack b)"
  shows "map fst (stack (step b (Tok \<lparr>tdepth = d, tkind = Ordered n, ttext = x\<rparr>))) =
           rev [0..<length (stack (step b (Tok \<lparr>tdepth = d, tkind = Ordered n, ttext = x\<rparr>)))]"
    and "length (stack (step b (Tok \<lparr>tdepth = d, tkind = Ordered n, ttext = x\<rparr>))) = Suc d"
    and "open_levels (step b (Tok \<lparr>tdepth = d, tkind = Ordered n, ttext = x\<rparr>)) =
           open_levels b @ [(d, x)]"
proof -
  obtain st' rs' where c: "close_frames (\<lambda>e. d \<le> e) (stack b) (roots b) = (st', rs')"
    by (cases "close_frames (\<lambda>e. d \<le> e) (stack b) (roots b)")
  have s: "step b (Tok \<lparr>tdepth = d, tkind = Ordered n, ttext = x\<rparr>) =
           b\<lparr>stack := (d, ListNode (IOrdered n) x []) # st', roots := rs', blank_seen := False\<rparr>"
    by (simp add: step_def c)
  note l = close_frames_levels [OF assms c]
  from l have len: "length st' = d" by (metis length_map length_rev length_upt diff_zero)
  show "length (stack (step b (Tok \<lparr>tdepth = d, tkind = Ordered n, ttext = x\<rparr>))) = Suc d"
    by (simp add: s len)
  show "map fst (stack (step b (Tok \<lparr>tdepth = d, tkind = Ordered n, ttext = x\<rparr>))) =
           rev [0..<length (stack (step b (Tok \<lparr>tdepth = d, tkind = Ordered n, ttext = x\<rparr>)))]"
    using l by (simp add: s len)
  show "open_levels (step b (Tok \<lparr>tdepth = d, tkind = Ordered n, ttext = x\<rparr>)) =
           open_levels b @ [(d, x)]"
    using l by (simp add: s open_levels_def)
qed

lemma foldl_step_levels:
  assumes "map fst (stack b) = rev [0..<length (stack b)]"
    and "nested_from (length (stack b)) (map fst dox)"
  shows "open_levels (foldl step b
           (map (\<lambda>(d, n, x). Tok \<lparr>tdepth = d, tkind = Ordered n, ttext = x\<rparr>) dox)) =
         open_levels b @ map (\<lambda>(d, n, x). (d, x)) dox \<and>
         map fst (stack (foldl step b
           (map (\<lambda>(d, n, x). Tok \<lparr>tdepth = d, tkind = Ordered n, ttext = x\<rparr>) dox))) =
         rev [0..<length (stack (foldl step b
           (map (\<lambda>(d, n, x). Tok \<lparr>tdepth = d, tkind = Ordered n, ttext = x\<rparr>) dox)))]"
  using assms
proof (induction dox arbitrary: b)
  case Nil
  then show ?case by simp
next
  case (Cons t dox)
  obtain d n x where t: "t = (d, n, x)" by (cases t)
  from Cons.prems(2) t have d: "d \<le> length (stack b)" and rest: "nested_from (Suc d) (map fst dox)"
    by simp_all
  note s = step_ordered_levels [OF Cons.prems(1) d, of n x]
  from rest s(2) have "nested_from
      (length (stack (step b (Tok \<lparr>tdepth = d, tkind = Ordered n, ttext = x\<rparr>)))) (map fst dox)"
    by simp
  from Cons.IH [OF s(1) this] s(3) show ?case by (simp add: t)
qed

lemma close_frames_all_levels:
  assumes "map fst st = rev [0..<length st]"
  shows "levels_nodes 0 (snd (close_frames (\<lambda>e. True) st rs)) =
         levels_nodes 0 rs @ concat (map (\<lambda>(e, n). levels_node e n) (rev st))"
proof -
  obtain st' rs' where c: "close_frames (\<lambda>e. 0 \<le> e) st rs = (st', rs')"
    by (cases "close_frames (\<lambda>e. 0 \<le> e) st rs")
  from close_frames_levels [OF assms _ c] have "st' = []"
    "levels_nodes 0 rs' = levels_nodes 0 rs @ concat (map (\<lambda>(e, n). levels_node e n) (rev st))"
    by auto
  with c show ?thesis by simp
qed


lemma build_nested_levels:
  assumes "dox \<noteq> []" and "nested_from 0 (map fst dox)"
  shows "\<exists>forest.
           build (map (\<lambda>(d, n, x). Tok \<lparr>tdepth = d, tkind = Ordered n, ttext = x\<rparr>) dox) = [forest] \<and>
           ordered_forest forest \<and>
           levels_nodes 0 forest = map (\<lambda>(d, n, x). (d, x)) dox"
proof -
  let ?cs = "map (\<lambda>(d, n, x). Tok \<lparr>tdepth = d, tkind = Ordered n, ttext = x\<rparr>) dox"
  let ?b = "foldl step builder_init ?cs"
  have l2: "list_all2 (\<lambda>c x. \<exists>d n. c = Tok \<lparr>tdepth = d, tkind = Ordered n, ttext = x\<rparr>)
              ?cs (map (\<lambda>(d, n, x). x) dox)"
    unfolding list_all2_map1 list_all2_map2 by (rule list_all2_refl) auto
  from assms(1) have ne: "map (\<lambda>(d, n, x). x) dox \<noteq> []" by simp
  from build_ordered_items [OF l2 ne] obtain forest where
    f: "build ?cs = [forest]" "ordered_forest forest" by blast
  have i: "map fst (stack builder_init) = rev [0..<length (stack builder_init)]"
    "nested_from (length (stack builder_init)) (map fst dox)"
    using assms(2) by (simp_all add: builder_init_def)
  from foldl_step_levels [OF i] have
    ol: "open_levels ?b = map (\<lambda>(d, n, x). (d, x)) dox"
    and cs: "map fst (stack ?b) = rev [0..<length (stack ?b)]"
    by (simp_all add: open_levels_def builder_init_def)
  from close_frames_all_levels [OF cs, of "roots ?b"] ol
  have "levels_nodes 0 (snd (close_frames (\<lambda>e. True) (stack ?b) (roots ?b))) =
        map (\<lambda>(d, n, x). (d, x)) dox"
    by (simp add: open_levels_def)
  moreover have "finished ?b = []"
    using foldl_step_ordered_items [OF l2, of builder_init] by (simp add: builder_init_def)
  with f(1) have "snd (close_frames (\<lambda>e. True) (stack ?b) (roots ?b)) = forest"
    by (auto simp: build_def flush_def Let_def split: if_splits)
  ultimately show ?thesis using f by blast
qed

lemma item_line_two_level:
  assumes "list_base st = None \<or> list_base st = Some w0"
    and "indent_unit st = None \<or> indent_unit st = Some (w1 - w0)" and "w0 < w1"
    and "list_base st = None \<longrightarrow> indent_unit st = None"
  shows "indent_width l = w0 \<Longrightarrow>
           fst (item_line st l k rest) = Tok \<lparr>tdepth = 0, tkind = k, ttext = item_text rest\<rparr> \<and>
           list_base (snd (item_line st l k rest)) = Some w0 \<and>
           (indent_unit (snd (item_line st l k rest)) = None \<or>
            indent_unit (snd (item_line st l k rest)) = Some (w1 - w0))"
    and "indent_width l = w1 \<Longrightarrow> list_base st = Some w0 \<Longrightarrow>
           fst (item_line st l k rest) = Tok \<lparr>tdepth = 1, tkind = k, ttext = item_text rest\<rparr> \<and>
           list_base (snd (item_line st l k rest)) = Some w0 \<and>
           indent_unit (snd (item_line st l k rest)) = Some (w1 - w0)"
  using assms by (auto simp: item_line_def Let_def depth_of_def)


lemma indent_width_one_dot:
  assumes "set ind \<subseteq> {CHR '' '', CHR 0x09}"
  shows "indent_width (ind @ ''1.'' @ r) = indent_width ind"
  using ws_prefix(2) [OF assms, of "CHR ''1''" "''.'' @ r"] by (simp add: is_ws_def)

lemma tokenize_from_two_level:
  assumes "set ind0 \<subseteq> {CHR '' '', CHR 0x09}" "set ind1 \<subseteq> {CHR '' '', CHR 0x09}"
    and "indent_width ind0 < indent_width ind1"
    and "\<forall>(ch, r)\<in>set crs. marker_ends r"
    and "list_base st = None \<or> list_base st = Some (indent_width ind0)"
    and "indent_unit st = None \<or> indent_unit st = Some (indent_width ind1 - indent_width ind0)"
    and "list_base st = None \<longrightarrow> indent_unit st = None \<and> (crs = [] \<or> \<not> fst (hd crs))"
  shows "tokenize_from st (map (\<lambda>(ch, r). (if ch then ind1 else ind0) @ ''1.'' @ r) crs) =
         map (\<lambda>(ch, r). Tok \<lparr>tdepth = (if ch then 1 else 0), tkind = Ordered 1,
                               ttext = item_text r\<rparr>) crs"
  using assms(4-)
proof (induction crs arbitrary: st)
  case Nil
  then show ?case by simp
next
  case (Cons cr crs)
  obtain ch r where cr: "cr = (ch, r)" by (cases cr)
  let ?ind = "if ch then ind1 else ind0"
  let ?l = "?ind @ ''1.'' @ r"
  from Cons.prems(1) cr have me: "marker_ends r" by simp
  have ws: "set ?ind \<subseteq> {CHR '' '', CHR 0x09}" using assms(1,2) by simp
  have c: "classify st ?l = item_line st ?l (Ordered 1) r"
    by (rule classify_one_dot [OF ws me])
  have w: "indent_width ?l = indent_width ?ind" by (rule indent_width_one_dot [OF ws])
  from Cons.prems(4) have u0: "list_base st = None \<longrightarrow> indent_unit st = None" by blast
  note tl = item_line_two_level [OF Cons.prems(2,3) assms(3) u0, of ?l "Ordered 1" r]
  let ?st' = "snd (item_line st ?l (Ordered 1) r)"
  have step: "fst (item_line st ?l (Ordered 1) r) =
        Tok \<lparr>tdepth = (if ch then 1 else 0), tkind = Ordered 1, ttext = item_text r\<rparr> \<and>
      list_base ?st' = Some (indent_width ind0) \<and>
      (indent_unit ?st' = None \<or>
       indent_unit ?st' = Some (indent_width ind1 - indent_width ind0))"
  proof (cases ch)
    case True
    with Cons.prems(4) cr have "list_base st \<noteq> None" by auto
    with Cons.prems(2) have "list_base st = Some (indent_width ind0)" by simp
    with tl(2) w True show ?thesis by simp
  next
    case False
    with tl(1) w show ?thesis by simp
  qed
  have "tokenize_from ?st' (map (\<lambda>(ch, r). (if ch then ind1 else ind0) @ ''1.'' @ r) crs) =
         map (\<lambda>(ch, r). Tok \<lparr>tdepth = (if ch then 1 else 0), tkind = Ordered 1,
                               ttext = item_text r\<rparr>) crs"
    using Cons.prems(1) step by (intro Cons.IH) simp_all
  with step show ?case
    by (simp add: cr c case_prod_unfold del: append.simps)
qed

lemma nested_from_le1: "\<forall>d\<in>set ds. d \<le> 1 \<Longrightarrow> 1 \<le> n \<Longrightarrow> nested_from n ds"
  by (induction ds arbitrary: n) auto

text \<open>
  Claim C6. In the list core modelled from the specification, an ordered list whose
  items all carry the source ordinal \<^verbatim>\<open>1.\<close> renders with its items numbered
  1, 2, 3 and so on in document order. For a flat list, whatever its common
  indentation, the output is one ordered list numbered 1 to n. For any indentation
  line by line, so for nested lists, the lines build one forest in which every node
  at every level is an ordered item and whose contents in document order are the
  texts of the lines. Every list of ordered siblings, with whatever children, renders
  as an ordered list numbered 1 to n around the rendering of the children, so the
  numbering holds at every level of such a forest. The rendering of any forest is the
  same under any change of the source ordinals, and a run of ordered item tokens of
  one depth is numbered 1 to n whatever ordinals the tokens record. The nesting is
  that of the source: ordered item tokens whose depths skip no level build the forest
  that has each text at the level of its token, in document order; and a list of
  items at one indentation, some followed by sub-items at one deeper indentation (the
  documented form), builds the forest with the items at level 0 and each sub-item at
  level 1 under the item before it.
\<close>

theorem ordered_items_renumbered:
  "(rs \<noteq> [] \<and> set ind \<subseteq> {CHR '' '', CHR 0x09} \<and>
    (\<forall>r\<in>set rs. r = [] \<or> hd r \<in> {CHR '' '', CHR 0x09}) \<longrightarrow>
      render_lines (map (\<lambda>r. ind @ ''1.'' @ r) rs) =
        ''<ol>'' @
        concat (map (\<lambda>(k, r). ''<li value='' @ decimal k @ ''>'' @ item_text r @ ''</li>'')
          (zip [1..<Suc (length rs)] rs)) @
        ''</ol>'') \<and>
   (irs \<noteq> [] \<and>
    (\<forall>(ind, r)\<in>set irs. set ind \<subseteq> {CHR '' '', CHR 0x09} \<and>
                        (r = [] \<or> hd r \<in> {CHR '' '', CHR 0x09})) \<longrightarrow>
      (\<exists>forest. build (tokenize (map (\<lambda>(ind, r). ind @ ''1.'' @ r) irs)) = [forest] \<and>
                ordered_forest forest \<and>
                texts_nodes forest = map (\<lambda>(ind, r). item_text r) irs \<and>
                render_lines (map (\<lambda>(ind, r). ind @ ''1.'' @ r) irs) = render_forest forest)) \<and>
   (ordered_forest ns \<longrightarrow>
      list_all is_ordered ns \<and> (\<forall>n\<in>set ns. ordered_forest (node_children n))) \<and>
   (list_all is_ordered ns \<and> ns \<noteq> [] \<longrightarrow>
      render_forest ns =
        ''<ol>'' @
        concat (map (\<lambda>(k, n). ''<li value='' @ decimal k @ ''>'' @ node_content n @
                         render_forest (node_children n) @ ''</li>'')
          (zip [1..<Suc (length ns)] ns)) @
        ''</ol>'') \<and>
   render_forest (relabel_nodes f ns) = render_forest ns \<and>
   (ocs \<noteq> [] \<longrightarrow>
      concat (map render_forest
        (build (map (\<lambda>(n, c). Tok \<lparr>tdepth = d, tkind = Ordered n, ttext = c\<rparr>) ocs))) =
        ''<ol>'' @
        concat (map (\<lambda>(k, n, c). ''<li value='' @ decimal k @ ''>'' @ c @ ''</li>'')
          (zip [1..<Suc (length ocs)] ocs)) @
        ''</ol>'') \<and>
   (dox \<noteq> [] \<and> nested_from 0 (map fst dox) \<longrightarrow>
      (\<exists>forest.
         build (map (\<lambda>(d, n, x). Tok \<lparr>tdepth = d, tkind = Ordered n, ttext = x\<rparr>) dox) =
           [forest] \<and>
         ordered_forest forest \<and>
         levels_nodes 0 forest = map (\<lambda>(d, n, x). (d, x)) dox)) \<and>
   (crs \<noteq> [] \<and> \<not> fst (hd crs) \<and>
    set pind \<subseteq> {CHR '' '', CHR 0x09} \<and> set cind \<subseteq> {CHR '' '', CHR 0x09} \<and>
    indent_width pind < indent_width cind \<and>
    (\<forall>(ch, r)\<in>set crs. r = [] \<or> hd r \<in> {CHR '' '', CHR 0x09}) \<longrightarrow>
      (\<exists>forest.
         build (tokenize (map (\<lambda>(ch, r). (if ch then cind else pind) @ ''1.'' @ r) crs)) =
           [forest] \<and>
         ordered_forest forest \<and>
         levels_nodes 0 forest = map (\<lambda>(ch, r). (if ch then 1 else 0, item_text r)) crs \<and>
         render_lines (map (\<lambda>(ch, r). (if ch then cind else pind) @ ''1.'' @ r) crs) =
           render_forest forest))"
proof (intro conjI impI)
  assume a: "rs \<noteq> [] \<and> set ind \<subseteq> {CHR '' '', CHR 0x09} \<and>
    (\<forall>r\<in>set rs. r = [] \<or> hd r \<in> {CHR '' '', CHR 0x09})"
  let ?ocs = "map (\<lambda>r. (1::nat, item_text r)) rs"
  have "tokenize_from tokenizer_init (map (\<lambda>r. ind @ ''1.'' @ r) rs) =
        map (\<lambda>r. Tok \<lparr>tdepth = 0, tkind = Ordered 1, ttext = item_text r\<rparr>) rs"
    using a by (intro tokenize_from_flat) (simp_all add: marker_ends_iff tokenizer_init_def)
  then have tok: "tokenize (map (\<lambda>r. ind @ ''1.'' @ r) rs) = map (ordered_tok 0) ?ocs"
    unfolding tokenize_def by (simp only: map_map comp_def ordered_tok_def fst_conv snd_conv)
  have gen: "concat (map (\<lambda>(k, oc). ''<li value='' @ decimal k @ ''>'' @ snd oc @ ''</li>'')
                 (zip ks ?ocs)) =
             concat (map (\<lambda>(k, r). ''<li value='' @ decimal k @ ''>'' @ item_text r @ ''</li>'')
                 (zip ks rs))" for ks
    by (simp add: zip_map2 case_prod_unfold comp_def del: decimal.simps)
  from a have "?ocs \<noteq> []" by simp
  from render_build_ordered_run [OF this, of 0]
  have "concat (map render_forest (build (map (ordered_tok 0) ?ocs))) =
        ''<ol>'' @
        concat (map (\<lambda>(k, oc). ''<li value='' @ decimal k @ ''>'' @ snd oc @ ''</li>'')
          (zip [1..<Suc (length rs)] ?ocs)) @
        ''</ol>''"
    by (simp only: length_map)
  then show "render_lines (map (\<lambda>r. ind @ ''1.'' @ r) rs) =
        ''<ol>'' @
        concat (map (\<lambda>(k, r). ''<li value='' @ decimal k @ ''>'' @ item_text r @ ''</li>'')
          (zip [1..<Suc (length rs)] rs)) @
        ''</ol>''"
    unfolding render_lines_def tok by (simp only: gen)
next
  assume a: "irs \<noteq> [] \<and>
    (\<forall>(ind, r)\<in>set irs. set ind \<subseteq> {CHR '' '', CHR 0x09} \<and>
                        (r = [] \<or> hd r \<in> {CHR '' '', CHR 0x09}))"
  let ?ls = "map (\<lambda>(ind, r). ind @ ''1.'' @ r) irs"
  let ?xs = "map (\<lambda>(ind, r). item_text r) irs"
  from a have "\<forall>(ind, r)\<in>set irs. set ind \<subseteq> {CHR '' '', CHR 0x09} \<and> marker_ends r"
    by (simp add: marker_ends_iff)
  from tokenize_from_one_dot_any [OF this, of tokenizer_init]
  have "list_all2 (\<lambda>c x. \<exists>d n. c = Tok \<lparr>tdepth = d, tkind = Ordered n, ttext = x\<rparr>)
          (tokenize ?ls) ?xs"
    unfolding tokenize_def list_all2_map2
    by (rule list_all2_mono) auto
  from build_ordered_items [OF this] a obtain forest where
    f: "build (tokenize ?ls) = [forest]" "ordered_forest forest" "texts_nodes forest = ?xs"
    by auto
  then have "render_lines ?ls = render_forest forest" by (simp add: render_lines_def)
  with f show "\<exists>forest. build (tokenize ?ls) = [forest] \<and> ordered_forest forest \<and>
                texts_nodes forest = ?xs \<and> render_lines ?ls = render_forest forest"
    by blast
next
  assume "ordered_forest ns"
  from ordered_forest_levels [OF this]
  show "list_all is_ordered ns" and "\<forall>n\<in>set ns. ordered_forest (node_children n)"
    by blast+
next
  assume "list_all is_ordered ns \<and> ns \<noteq> []"
  then show "render_forest ns =
        ''<ol>'' @
        concat (map (\<lambda>(k, n). ''<li value='' @ decimal k @ ''>'' @ node_content n @
                         render_forest (node_children n) @ ''</li>'')
          (zip [1..<Suc (length ns)] ns)) @
        ''</ol>''"
    by (intro render_forest_ordered) simp_all
next
  show "render_forest (relabel_nodes f ns) = render_forest ns"
    by (rule render_forest_relabel)
next
  assume "ocs \<noteq> []"
  have eq: "(\<lambda>(n, c). Tok \<lparr>tdepth = d, tkind = Ordered n, ttext = c\<rparr>) = ordered_tok d"
    by (auto simp: ordered_tok_def fun_eq_iff)
  have eq2: "(\<lambda>(k, n, c). ''<li value='' @ decimal k @ ''>'' @ c @ ''</li>'') =
             (\<lambda>(k, oc :: nat \<times> string). ''<li value='' @ decimal k @ ''>'' @ snd oc @ ''</li>'')"
    by (simp add: fun_eq_iff case_prod_unfold del: decimal.simps)
  from render_build_ordered_run [OF \<open>ocs \<noteq> []\<close>, of d]
  show "concat (map render_forest
        (build (map (\<lambda>(n, c). Tok \<lparr>tdepth = d, tkind = Ordered n, ttext = c\<rparr>) ocs))) =
        ''<ol>'' @
        concat (map (\<lambda>(k, n, c). ''<li value='' @ decimal k @ ''>'' @ c @ ''</li>'')
          (zip [1..<Suc (length ocs)] ocs)) @
        ''</ol>''"
    unfolding eq eq2 by this
next
  assume "dox \<noteq> [] \<and> nested_from 0 (map fst dox)"
  then show "\<exists>forest.
         build (map (\<lambda>(d, n, x). Tok \<lparr>tdepth = d, tkind = Ordered n, ttext = x\<rparr>) dox) =
           [forest] \<and>
         ordered_forest forest \<and>
         levels_nodes 0 forest = map (\<lambda>(d, n, x). (d, x)) dox"
    by (intro build_nested_levels) simp_all
next
  assume a: "crs \<noteq> [] \<and> \<not> fst (hd crs) \<and>
    set pind \<subseteq> {CHR '' '', CHR 0x09} \<and> set cind \<subseteq> {CHR '' '', CHR 0x09} \<and>
    indent_width pind < indent_width cind \<and>
    (\<forall>(ch, r)\<in>set crs. r = [] \<or> hd r \<in> {CHR '' '', CHR 0x09})"
  let ?ls = "map (\<lambda>(ch, r). (if ch then cind else pind) @ ''1.'' @ r) crs"
  let ?dox = "map (\<lambda>(ch, r). (if ch then 1 else 0 :: nat, 1 :: nat, item_text r)) crs"
  from a have me: "\<forall>(ch, r)\<in>set crs. marker_ends r"
    by (simp add: marker_ends_iff)
  from a have h: "set pind \<subseteq> {CHR '' '', CHR 0x09}" "set cind \<subseteq> {CHR '' '', CHR 0x09}"
    "indent_width pind < indent_width cind" "crs \<noteq> []" "\<not> fst (hd crs)"
    by blast+
  have "tokenize_from tokenizer_init ?ls =
         map (\<lambda>(ch, r). Tok \<lparr>tdepth = (if ch then 1 else 0), tkind = Ordered 1,
                               ttext = item_text r\<rparr>) crs"
    using h(5) by (intro tokenize_from_two_level [OF h(1,2,3) me]) (simp_all add: tokenizer_init_def)
  then have tok: "tokenize ?ls =
      map (\<lambda>(d, n, x). Tok \<lparr>tdepth = d, tkind = Ordered n, ttext = x\<rparr>) ?dox"
    unfolding tokenize_def by (simp add: case_prod_unfold comp_def del: append.simps)
  from h(4) obtain cr crs' where crs: "crs = cr # crs'" by (cases crs) auto
  have "nested_from 1 (map fst (map (\<lambda>(ch, r). (if ch then 1 else 0 :: nat, 1 :: nat, item_text r)) crs'))"
    by (intro nested_from_le1) (auto simp: case_prod_unfold)
  with h(5) crs have nf: "nested_from 0 (map fst ?dox)"
    by (simp add: case_prod_unfold)
  from h(4) have "?dox \<noteq> []" by simp
  from build_nested_levels [OF this nf] obtain forest where
    f: "build (tokenize ?ls) = [forest]" "ordered_forest forest"
      "levels_nodes 0 forest = map (\<lambda>(d, n, x). (d, x)) ?dox"
    unfolding tok by blast
  from f(3) have l: "levels_nodes 0 forest = map (\<lambda>(ch, r). (if ch then 1 else 0, item_text r)) crs"
    by (simp add: case_prod_unfold comp_def)
  from f(1) have "render_lines ?ls = render_forest forest" by (simp add: render_lines_def)
  with f(1,2) l show "\<exists>forest. build (tokenize ?ls) = [forest] \<and> ordered_forest forest \<and>
         levels_nodes 0 forest = map (\<lambda>(ch, r). (if ch then 1 else 0, item_text r)) crs \<and>
         render_lines ?ls = render_forest forest"
    by blast
qed

lemmas list_core_defs =
  tokenize_def tokenizer_init_def classify_def item_line_def match_task_def match_radio_def
  match_unordered_def match_ordered_def marker_ends_def starts_with_def is_ws_def is_digit_def
  parse_digits_def item_text_def strip_break_def ends_with_break_def depth_of_def
  build_def builder_init_def step_def flush_def add_child_def
  render_lines_def render_forest_def list_tag_def Let_def

theorem ordered_items_renumbered_witness:
  "render_lines [''1.'', ''1.'', ''1.''] =
     ''<ol><li value=1></li><li value=2></li><li value=3></li></ol>'' \<and>
   render_lines [''  1. a'', ''  1. b'', ''  1. c''] =
     ''<ol><li value=1>a</li><li value=2>b</li><li value=3>c</li></ol>'' \<and>
   render_lines [''1. Item 1'', ''   1. Sub item 1.1'', ''   1. Sub item 1.2'', ''1. Item 2'',
                 ''1. Item 3''] =
     ''<ol><li value=1>Item 1<ol><li value=1>Sub item 1.1</li><li value=2>Sub item 1.2</li></ol></li><li value=2>Item 2</li><li value=3>Item 3</li></ol>'' \<and>
   (\<exists>forest.
      build (tokenize [''1. Item 1'', ''   1. Sub item 1.1'', ''   1. Sub item 1.2'',
                       ''1. Item 2'', ''1. Item 3'']) = [forest] \<and>
      ordered_forest forest \<and>
      texts_nodes forest = [''Item 1'', ''Sub item 1.1'', ''Sub item 1.2'', ''Item 2'', ''Item 3'']) \<and>
   (\<exists>forest.
      build (tokenize [''1. Item 1'', ''   1. Sub item 1.1'', ''   1. Sub item 1.2'',
                       ''1. Item 2'', ''1. Item 3'']) = [forest] \<and>
      levels_nodes 0 forest =
        [(0, ''Item 1''), (1, ''Sub item 1.1''), (1, ''Sub item 1.2''), (0, ''Item 2''),
         (0, ''Item 3'')]) \<and>
   render_forest [ListNode (IOrdered 5) ''a'' [ListNode (IOrdered 9) ''b'' []],
                  ListNode (IOrdered 5) ''c'' []] =
     ''<ol><li value=1>a<ol><li value=1>b</li></ol></li><li value=2>c</li></ol>'' \<and>
   concat (map render_forest
     (build [Tok \<lparr>tdepth = 0, tkind = Ordered 7, ttext = ''a''\<rparr>,
             Tok \<lparr>tdepth = 0, tkind = Ordered 7, ttext = ''b''\<rparr>,
             Tok \<lparr>tdepth = 0, tkind = Ordered 2, ttext = ''c''\<rparr>])) =
     ''<ol><li value=1>a</li><li value=2>b</li><li value=3>c</li></ol>''"
proof -
  let ?nested = "[([], '' Item 1''), (''   '', '' Sub item 1.1''), (''   '', '' Sub item 1.2''),
                  ([], '' Item 2''), ([], '' Item 3'')]"
  let ?ns = "[ListNode (IOrdered 5) ''a'' [ListNode (IOrdered 9) ''b'' []],
              ListNode (IOrdered 5) ''c'' []]"
  have it: "item_text '' Item 1'' = ''Item 1''" "item_text '' Sub item 1.1'' = ''Sub item 1.1''"
    "item_text '' Sub item 1.2'' = ''Sub item 1.2''" "item_text '' Item 2'' = ''Item 2''"
    "item_text '' Item 3'' = ''Item 3''" "item_text '' a'' = ''a''" "item_text '' b'' = ''b''"
    "item_text '' c'' = ''c''" "item_text [] = []"
    by (simp_all add: item_text_def strip_break_def ends_with_break_def is_ws_def)
  note t = ordered_items_renumbered [of "[[], [], []]" "[]" ?nested ?ns id
      "[(7, ''a''), (7, ''b''), (2, ''c'')]" 0]
  from t have a: "render_lines [''1.'', ''1.'', ''1.''] =
       ''<ol><li value=1></li><li value=2></li><li value=3></li></ol>''"
    by (simp add: it upt_rec)
  from t have "\<exists>forest.
      build (tokenize [''1. Item 1'', ''   1. Sub item 1.1'', ''   1. Sub item 1.2'',
                       ''1. Item 2'', ''1. Item 3'']) = [forest] \<and>
      ordered_forest forest \<and>
      texts_nodes forest = [''Item 1'', ''Sub item 1.1'', ''Sub item 1.2'', ''Item 2'', ''Item 3''] \<and>
      render_lines [''1. Item 1'', ''   1. Sub item 1.1'', ''   1. Sub item 1.2'',
                       ''1. Item 2'', ''1. Item 3''] = render_forest forest"
    by (simp add: it)
  then have c: "\<exists>forest.
      build (tokenize [''1. Item 1'', ''   1. Sub item 1.1'', ''   1. Sub item 1.2'',
                       ''1. Item 2'', ''1. Item 3'']) = [forest] \<and>
      ordered_forest forest \<and>
      texts_nodes forest = [''Item 1'', ''Sub item 1.1'', ''Sub item 1.2'', ''Item 2'', ''Item 3'']"
    by blast
  from t have d: "render_forest ?ns =
       ''<ol><li value=1>a<ol><li value=1>b</li></ol></li><li value=2>c</li></ol>''"
    by (simp add: upt_rec render_forest_def list_tag_def)
  from t have e: "concat (map render_forest
     (build [Tok \<lparr>tdepth = 0, tkind = Ordered 7, ttext = ''a''\<rparr>,
             Tok \<lparr>tdepth = 0, tkind = Ordered 7, ttext = ''b''\<rparr>,
             Tok \<lparr>tdepth = 0, tkind = Ordered 2, ttext = ''c''\<rparr>])) =
     ''<ol><li value=1>a</li><li value=2>b</li><li value=3>c</li></ol>''"
    by (simp add: upt_rec)
  from ordered_items_renumbered [of "['' a'', '' b'', '' c'']" "''  ''" ?nested ?ns id
      "[(7, ''a'')]" 0]
  have b: "render_lines [''  1. a'', ''  1. b'', ''  1. c''] =
     ''<ol><li value=1>a</li><li value=2>b</li><li value=3>c</li></ol>''"
    by (simp add: it upt_rec)
  have n: "render_lines [''1. Item 1'', ''   1. Sub item 1.1'', ''   1. Sub item 1.2'', ''1. Item 2'',
                 ''1. Item 3''] =
     ''<ol><li value=1>Item 1<ol><li value=1>Sub item 1.1</li><li value=2>Sub item 1.2</li></ol></li><li value=2>Item 2</li><li value=3>Item 3</li></ol>''"
    by (simp add: list_core_defs)
  from ordered_items_renumbered [where pind = "[]" and cind = "''   ''" and
      crs = "[(False, '' Item 1''), (True, '' Sub item 1.1''), (True, '' Sub item 1.2''),
              (False, '' Item 2''), (False, '' Item 3'')]"]
  have "\<exists>forest.
      build (tokenize [''1. Item 1'', ''   1. Sub item 1.1'', ''   1. Sub item 1.2'',
                       ''1. Item 2'', ''1. Item 3'']) = [forest] \<and>
      ordered_forest forest \<and>
      levels_nodes 0 forest =
        [(0, ''Item 1''), (1, ''Sub item 1.1''), (1, ''Sub item 1.2''), (0, ''Item 2''),
         (0, ''Item 3'')] \<and>
      render_lines [''1. Item 1'', ''   1. Sub item 1.1'', ''   1. Sub item 1.2'',
                       ''1. Item 2'', ''1. Item 3''] = render_forest forest"
    by (simp add: it)
  then have l: "\<exists>forest.
      build (tokenize [''1. Item 1'', ''   1. Sub item 1.1'', ''   1. Sub item 1.2'',
                       ''1. Item 2'', ''1. Item 3'']) = [forest] \<and>
      levels_nodes 0 forest =
        [(0, ''Item 1''), (1, ''Sub item 1.1''), (1, ''Sub item 1.2''), (0, ''Item 2''),
         (0, ''Item 3'')]"
    by blast
  from a b n c l d e show ?thesis by blast
qed

section \<open>The list core: malformed markers, the trees and the markup\<close>

















































end
